theory Spec2Isabelle
  imports Complex_Main "HOL-Library.Word"
begin

unbundle bit_operations_syntax

section \<open>The SSD1306 driver of mt32-pi (src/lcd/ssd1306.cpp)\<close>

text \<open>
  The C++ types \<open>u8\<close> and \<open>u16\<close> are 8-bit and 16-bit words. An expression on them is
  evaluated in \<open>int\<close> after the integer promotions, and narrowed when it is stored; every
  intermediate value of this file stays far below \<open>2 ^ 31\<close>, so the promoted arithmetic is
  written on HOL's \<open>int\<close> and the narrowing store is \<open>word_of_int\<close>. Array indices and
  \<open>size_t\<close> offsets are \<open>int\<close> as well, and every array access is checked: an access
  outside the array is undefined behaviour in the source and the error \<open>OutOfBounds\<close> here.
\<close>

type_synonym u8 = "8 word"
type_synonym u16 = "16 word"

datatype error = OutOfBounds | AssertionFailed | NullPointer

subsection \<open>Compile-time font conversion\<close>

text \<open>
  \<open>using CharData = u8[8]\<close>: the eight rows of one glyph, as a list read with \<open>!\<close> at
  the indices \<open>0\<close> to \<open>7\<close>.
\<close>

type_synonym CharData = "u8 list"

text \<open>
  \<open>SingleColumn\<close>: \<open>u8 bit = 5 - nColumn\<close>, then for \<open>i < 8\<close>
  \<open>column |= (CharData[i] >> bit & 1) << i\<close>. The font tables call it with
  \<open>nColumn < 6\<close> only, so that the shift count is at most 5.
\<close>

definition SingleColumn_step :: "CharData \<Rightarrow> u8 \<Rightarrow> nat \<Rightarrow> u8 \<Rightarrow> u8" where
  "SingleColumn_step cd b i column =
     column OR word_of_int (push_bit i (drop_bit (unat b) (uint (cd ! i)) AND 1))"

definition SingleColumn :: "CharData \<Rightarrow> u8 \<Rightarrow> u8" where
  "SingleColumn cd nColumn =
     (let b = 5 - nColumn in fold (SingleColumn_step cd b) [0..<8] 0)"

text \<open>
  \<open>DoubleColumn\<close>: for \<open>i < 8\<close>, \<open>bool bit = singleColumn >> i & 1\<close> and
  \<open>column |= bit << i * 2 | bit << (i * 2 + 1)\<close>.
\<close>

definition DoubleColumn_step :: "u8 \<Rightarrow> nat \<Rightarrow> u16 \<Rightarrow> u16" where
  "DoubleColumn_step singleColumn i column =
     (let b = (drop_bit i (uint singleColumn) AND 1 \<noteq> 0)
      in column OR word_of_int (push_bit (i * 2) (of_bool b) OR push_bit (i * 2 + 1) (of_bool b)))"

definition DoubleColumn :: "CharData \<Rightarrow> u8 \<Rightarrow> u16" where
  "DoubleColumn cd nColumn =
     (let singleColumn = SingleColumn cd nColumn
      in fold (DoubleColumn_step singleColumn) [0..<8] 0)"

text \<open>
  The constructor of \<open>Font\<close>: \<open>mCharData[i][j] = Function(CharData[i], j)\<close> for every
  glyph \<open>i\<close> and \<open>j < 6\<close>. The glyph set \<open>Font6x8\<close> is declared in lcd/font6x8.h, which
  is not among the sources: it is a parameter here.
\<close>

definition Font :: "CharData list \<Rightarrow> (CharData \<Rightarrow> u8 \<Rightarrow> 'c) \<Rightarrow> 'c list list" where
  "Font font6x8 Function = map (\<lambda>cd. map (\<lambda>j. Function cd (of_nat j)) [0..<6]) font6x8"

definition FontSingle :: "CharData list \<Rightarrow> u8 list list" where
  "FontSingle font6x8 = Font font6x8 SingleColumn"

definition FontDouble :: "CharData list \<Rightarrow> u16 list list" where
  "FontDouble font6x8 = Font font6x8 DoubleColumn"

subsection \<open>Checked array accesses and loops\<close>

definition bind :: "error + 'a \<Rightarrow> ('a \<Rightarrow> error + 'b) \<Rightarrow> error + 'b" where
  "bind m f = (case m of Inl e \<Rightarrow> Inl e | Inr x \<Rightarrow> f x)"

definition load :: "'a list \<Rightarrow> int \<Rightarrow> error + 'a" where
  "load a i = (if 0 \<le> i \<and> i < int (length a) then Inr (a ! nat i) else Inl OutOfBounds)"

definition store :: "'a list \<Rightarrow> int \<Rightarrow> 'a \<Rightarrow> error + 'a list" where
  "store a i v = (if 0 \<le> i \<and> i < int (length a) then Inr (a[nat i := v]) else Inl OutOfBounds)"

text \<open>A counted \<open>for\<close> loop: the body runs for each value of the counter, until an error.\<close>

fun for_each :: "'i list \<Rightarrow> ('i \<Rightarrow> 's \<Rightarrow> error + 's) \<Rightarrow> 's \<Rightarrow> error + 's" where
  "for_each [] body s = Inr s"
| "for_each (i # is) body s = bind (body i s) (for_each is body)"

subsection \<open>The driver object\<close>

datatype TLCDRotation = Normal | Inverted

text \<open>
  The bus transport \<open>CI2CMaster\<close> is seen through the calls \<open>Write(address, buffer, count)\<close>
  it has received: each is recorded as the address and the \<open>count\<close> bytes read from the
  buffer. \<open>m_pI2CMaster\<close> is a pointer, \<open>None\<close> when it is \<open>nullptr\<close>.
\<close>

type_synonym CI2CMaster = "(u8 \<times> u8 list) list"

text \<open>
  The fields of \<open>CSSD1306\<close>. The levels and the text buffer are members of the base class
  \<open>CMT32LCD\<close>; the levels are floating-point numbers, whose type is left open as \<open>'f\<close>.
\<close>

record 'f CSSD1306 =
  m_pI2CMaster :: "CI2CMaster option"
  m_nAddress :: u8
  m_nHeight :: u8
  m_Rotation :: TLCDRotation
  m_Framebuffer :: "u8 list"
  m_PartLevels :: "nat \<Rightarrow> 'f"
  m_PeakLevels :: "nat \<Rightarrow> 'f"
  m_TextBuffer :: string

text \<open>
  What the functions use of the headers lcd/ssd1306.h, lcd/font6x8.h and of the build, none
  of them among the sources, is a parameter of the model:
  \<^item> \<open>Font6x8\<close>, the glyph set;
  \<^item> \<open>FramebufferSize\<close>, the declared number of bytes of \<open>m_Framebuffer\<close>;
  \<^item> \<open>scale l h\<close>, the value of the floating-point product \<open>l * h\<close> of a level and a
    \<open>u8\<close>, converted to \<open>u8\<close>;
  \<^item> the default arguments of \<open>DrawChar\<close>, \<open>DrawPartLevels\<close> and \<open>Print\<close>;
  \<^item> \<open>assertions\<close>, whether \<open>assert\<close> is compiled in.
\<close>

record 'f decls =
  Font6x8 :: "CharData list"
  FramebufferSize :: nat
  scale :: "'f \<Rightarrow> u8 \<Rightarrow> u8"
  default_bInverted :: bool
  default_bDoubleWidth :: bool
  default_bDrawPeaks :: bool
  default_bImmediate :: bool
  assertions :: bool

text \<open>Drawing constants.\<close>

abbreviation (input) Width :: int where "Width \<equiv> 128"
abbreviation (input) BarWidth :: int where "BarWidth \<equiv> 12"
abbreviation (input) BarSpacing :: int where "BarSpacing \<equiv> 2"
abbreviation (input) BarOffset :: int where "BarOffset \<equiv> 2"

text \<open>
  The constructor: \<open>m_Framebuffer{0x40}\<close> sets the first byte and zeroes the rest, then
  \<open>assert(nHeight == 32 || nHeight == 64)\<close>.
\<close>

definition CSSD1306 ::
  "'f decls \<Rightarrow> CI2CMaster option \<Rightarrow> u8 \<Rightarrow> u8 \<Rightarrow> TLCDRotation \<Rightarrow> (nat \<Rightarrow> 'f) \<Rightarrow> (nat \<Rightarrow> 'f) \<Rightarrow> string
     \<Rightarrow> error + 'f CSSD1306" where
  "CSSD1306 d pI2CMaster nAddress nHeight Rotation levels peaks text =
     (if assertions d \<and> \<not> (nHeight = 32 \<or> nHeight = 64) then Inl AssertionFailed
      else Inr \<lparr>m_pI2CMaster = pI2CMaster, m_nAddress = nAddress, m_nHeight = nHeight,
                m_Rotation = Rotation,
                m_Framebuffer = 0x40 # replicate (FramebufferSize d - 1) 0,
                m_PartLevels = levels, m_PeakLevels = peaks, m_TextBuffer = text\<rparr>)"

text \<open>\<open>Initialize\<close>: the bytes of \<open>initSequence\<close>, each sent as \<open>{0x80, byte}\<close>.\<close>

definition initSequence :: "'f CSSD1306 \<Rightarrow> u8 list" where
  "initSequence s =
     (let pageAddrRange = (if m_nHeight s = 32 then 0x03 else 0x07);
          segRemap = (if m_Rotation s = Inverted then 0xA0 else 0xA1);
          comScanDir = (if m_Rotation s = Inverted then 0xC0 else 0xC8);
          multiplexRatio = m_nHeight s - 1;
          comPins = (if m_nHeight s = 32 then 0x02 else 0x12)
      in [0xAE, 0x81, 0x7F, 0xA6, 0x20, 0x0, 0x21, 0x00, 0x7F, 0x22, 0x00, pageAddrRange,
          segRemap, 0xA8, multiplexRatio, comScanDir, 0xD3, 0x00, 0xDA, comPins,
          0xD5, 0x80, 0xD9, 0x22, 0xDB, 0x20, 0x8D, 0x14, 0xA4, 0xAF])"

definition I2C_Write :: "u8 \<Rightarrow> u8 list \<Rightarrow> 'f CSSD1306 \<Rightarrow> error + 'f CSSD1306" where
  "I2C_Write nAddress bytes s =
     (case m_pI2CMaster s of
        None \<Rightarrow> Inl NullPointer
      | Some written \<Rightarrow> Inr (s\<lparr>m_pI2CMaster := Some (written @ [(nAddress, bytes)])\<rparr>))"

definition Initialize :: "'f decls \<Rightarrow> 'f CSSD1306 \<Rightarrow> error + (bool \<times> 'f CSSD1306)" where
  "Initialize d s =
     (if assertions d \<and> m_pI2CMaster s = None then Inl AssertionFailed
      else if \<not> (m_nHeight s = 32 \<or> m_nHeight s = 64) then Inr (False, s)
      else bind (for_each (initSequence s) (\<lambda>byte. I2C_Write (m_nAddress s) [0x80, byte]) s)
             (\<lambda>s'. Inr (True, s')))"

text \<open>\<open>WriteFramebuffer\<close>: one write of the first \<open>m_nHeight * 16 + 1\<close> bytes.\<close>

definition WriteFramebuffer :: "'f CSSD1306 \<Rightarrow> error + 'f CSSD1306" where
  "WriteFramebuffer s =
     (let count = uint (m_nHeight s) * 16 + 1
      in if count \<le> int (length (m_Framebuffer s))
         then I2C_Write (m_nAddress s) (take (nat count) (m_Framebuffer s)) s
         else Inl OutOfBounds)"

subsection \<open>Framebuffer primitives\<close>

text \<open>
  \<open>SetPixel\<close>: \<open>nX &= 0x7F; nY &= 0x3F;\<close> then
  \<open>m_Framebuffer[((nY & 0xF8) << 4) + nX + 1] |= 1 << (nY & 7)\<close>.
\<close>

definition SetPixel :: "u8 \<Rightarrow> u8 \<Rightarrow> 'f CSSD1306 \<Rightarrow> error + 'f CSSD1306" where
  "SetPixel nX nY s =
     (let nX = nX AND 0x7F;
          nY = nY AND 0x3F;
          idx = push_bit 4 (uint nY AND 0xF8) + uint nX + 1
      in bind (load (m_Framebuffer s) idx) (\<lambda>v.
         bind (store (m_Framebuffer s) idx
                 (word_of_int (uint v OR push_bit (nat (uint nY AND 7)) 1))) (\<lambda>fb.
         Inr (s\<lparr>m_Framebuffer := fb\<rparr>))))"

text \<open>\<open>ClearPixel\<close>: the same byte, \<open>&= ~(1 << (nY & 7))\<close>.\<close>

definition ClearPixel :: "u8 \<Rightarrow> u8 \<Rightarrow> 'f CSSD1306 \<Rightarrow> error + 'f CSSD1306" where
  "ClearPixel nX nY s =
     (let nX = nX AND 0x7F;
          nY = nY AND 0x3F;
          idx = push_bit 4 (uint nY AND 0xF8) + uint nX + 1
      in bind (load (m_Framebuffer s) idx) (\<lambda>v.
         bind (store (m_Framebuffer s) idx
                 (word_of_int (uint v AND NOT (push_bit (nat (uint nY AND 7)) 1)))) (\<lambda>fb.
         Inr (s\<lparr>m_Framebuffer := fb\<rparr>))))"

text \<open>\<open>Clear\<close>: \<open>memset(m_Framebuffer + 1, 0, Width * m_nHeight / 8)\<close>, then the flush.\<close>

definition memset :: "u8 list \<Rightarrow> int \<Rightarrow> u8 \<Rightarrow> int \<Rightarrow> error + u8 list" where
  "memset a start v count =
     (if 0 \<le> start \<and> 0 \<le> count \<and> start + count \<le> int (length a)
      then Inr (take (nat start) a @ replicate (nat count) v @ drop (nat (start + count)) a)
      else Inl OutOfBounds)"

definition Clear :: "bool \<Rightarrow> 'f CSSD1306 \<Rightarrow> error + 'f CSSD1306" where
  "Clear bImmediate s =
     bind (memset (m_Framebuffer s) 1 0 (Width * uint (m_nHeight s) div 8)) (\<lambda>fb.
       let s = s\<lparr>m_Framebuffer := fb\<rparr>
       in if bImmediate then WriteFramebuffer s else Inr s)"

subsection \<open>Glyph blitter\<close>

text \<open>
  One pass of the loop of \<open>DrawChar\<close> over the glyph columns \<open>i < 6\<close>. The font index is
  \<open>static_cast<u8>(chChar - ' ')\<close>; \<open>fontColumn\<close> is a \<open>u16\<close>, so \<open>^= 0x3FFF\<close> and
  \<open><<= 2\<close> are the word operations.
\<close>

definition DrawChar_column ::
  "u16 list list \<Rightarrow> u8 \<Rightarrow> int \<Rightarrow> int \<Rightarrow> bool \<Rightarrow> bool \<Rightarrow> nat \<Rightarrow> u8 list \<Rightarrow> error + u8 list" where
  "DrawChar_column fontDouble chChar rowOffset columnOffset bInverted bDoubleWidth i fb =
     bind (load fontDouble (uint (chChar - 0x20))) (\<lambda>glyph.
     bind (load glyph (int i)) (\<lambda>fontColumn.
       let fontColumn = (if 0 < i \<and> bInverted then fontColumn XOR 0x3FFF else fontColumn);
           fontColumn = push_bit 2 fontColumn;
           offset = rowOffset + columnOffset + (if bDoubleWidth then int i * 2 else int i)
       in bind (store fb offset (word_of_int (uint fontColumn AND 0xFF))) (\<lambda>fb.
          bind (store fb (offset + Width) (word_of_int (drop_bit 8 (uint fontColumn) AND 0xFF))) (\<lambda>fb.
          if bDoubleWidth
          then bind (load fb offset) (\<lambda>v.
               bind (store fb (offset + 1) v) (\<lambda>fb.
               bind (load fb (offset + Width)) (\<lambda>v.
               store fb (offset + Width + 1) v)))
          else Inr fb))))"

text \<open>
  \<open>DrawChar\<close>. A \<open>char\<close> is read as its byte, so that \<open>chChar == '\xFF'\<close> and the
  index \<open>static_cast<u8>(chChar - ' ')\<close> do not depend on its signedness.
\<close>

definition DrawChar ::
  "'f decls \<Rightarrow> char \<Rightarrow> u8 \<Rightarrow> u8 \<Rightarrow> bool \<Rightarrow> bool \<Rightarrow> 'f CSSD1306 \<Rightarrow> error + 'f CSSD1306" where
  "DrawChar d chChar nCursorX nCursorY bInverted bDoubleWidth s =
     (let rowOffset = uint nCursorY * Width * 2;
          columnOffset = uint nCursorX * (if bDoubleWidth then 12 else 6) + 5;
          chChar = (if (of_char chChar :: u8) = 0xFF then 0x80 else of_char chChar)
      in bind (for_each [0..<6]
                 (DrawChar_column (FontDouble (Font6x8 d)) chChar rowOffset columnOffset
                    bInverted bDoubleWidth)
                 (m_Framebuffer s)) (\<lambda>fb.
         Inr (s\<lparr>m_Framebuffer := fb\<rparr>)))"

subsection \<open>Bar graph rasterizer\<close>

text \<open>
  The page values of one part, lines 244 to 251 of \<open>DrawPartLevels\<close>: the two loops over
  \<open>j\<close>, then \<open>if (remainder) pageValues[fullPages] = 0xFF << (8 - remainder)\<close>.
\<close>

definition fillPageValues :: "u8 \<Rightarrow> u8 \<Rightarrow> u8 list \<Rightarrow> error + u8 list" where
  "fillPageValues totalPages partLevelPixels pageValues =
     (let fullPages = partLevelPixels div 8;
          remainder = partLevelPixels mod 8
      in bind (for_each [0..<unat fullPages] (\<lambda>j pv. store pv (int j) 0xFF) pageValues) (\<lambda>pv.
         bind (for_each [unat fullPages..<unat totalPages] (\<lambda>j pv. store pv (int j) 0) pv) (\<lambda>pv.
         if remainder \<noteq> 0
         then store pv (uint fullPages) (word_of_int (push_bit (nat (8 - uint remainder)) 0xFF))
         else Inr pv)))"

text \<open>
  The peak meter, lines 254 to 263: \<open>pageValues[peakPage] |= 1 << 8 - remainder\<close>, or
  \<open>pageValues[peakPage - 1] |= 1\<close> when the remainder is 0.
\<close>

definition peakMarker :: "bool \<Rightarrow> u8 \<Rightarrow> u8 list \<Rightarrow> error + u8 list" where
  "peakMarker bDrawPeaks peakLevelPixels pageValues =
     (if bDrawPeaks \<and> peakLevelPixels \<noteq> 0
      then let peakPage = peakLevelPixels div 8;
               remainder = peakLevelPixels mod 8
           in if remainder \<noteq> 0
              then bind (load pageValues (uint peakPage)) (\<lambda>v.
                   store pageValues (uint peakPage)
                     (word_of_int (uint v OR push_bit (nat (8 - uint remainder)) 1)))
              else bind (load pageValues (uint peakPage - 1)) (\<lambda>v.
                   store pageValues (uint peakPage - 1) (word_of_int (uint v OR 1)))
      else Inr pageValues)"

text \<open>The loops over the bar columns \<open>j\<close> and the bar rows \<open>k\<close>, lines 266 to 285.\<close>

definition barOffset :: "int \<Rightarrow> u8 \<Rightarrow> nat \<Rightarrow> nat \<Rightarrow> nat \<Rightarrow> int" where
  "barOffset firstPageOffset totalPages i j k =
     firstPageOffset + BarOffset + ((uint totalPages - 1) * Width - int k * Width)
       + (int i * (BarWidth + BarSpacing) + int j)"

definition drawBar :: "int \<Rightarrow> u8 \<Rightarrow> nat \<Rightarrow> u8 list \<Rightarrow> u8 list \<Rightarrow> error + u8 list" where
  "drawBar firstPageOffset totalPages i pageValues fb =
     for_each [0..<nat BarWidth] (\<lambda>j.
       for_each [0..<unat totalPages] (\<lambda>k fb.
         bind (load pageValues (int k)) (\<lambda>v.
         store fb (barOffset firstPageOffset totalPages i j k + 1) v))) fb"

text \<open>
  The body of the loop over the parts \<open>i < 9\<close>. \<open>pageValues\<close> is a local array of
  \<open>totalPages\<close> bytes, declared without initialiser: \<open>junk i\<close> gives its indeterminate
  contents in pass \<open>i\<close>.
\<close>

definition drawPart ::
  "'f decls \<Rightarrow> (nat \<Rightarrow> nat \<Rightarrow> u8) \<Rightarrow> 'f CSSD1306 \<Rightarrow> int \<Rightarrow> u8 \<Rightarrow> u8 \<Rightarrow> bool \<Rightarrow> nat \<Rightarrow> u8 list
     \<Rightarrow> error + u8 list" where
  "drawPart d junk s firstPageOffset totalPages barHeight bDrawPeaks i fb =
     (let pageValues = map (junk i) [0..<unat totalPages];
          partLevelPixels = scale d (m_PartLevels s i) barHeight;
          peakLevelPixels = scale d (m_PeakLevels s i) barHeight
      in bind (fillPageValues totalPages partLevelPixels pageValues) (\<lambda>pageValues.
         bind (peakMarker bDrawPeaks peakLevelPixels pageValues) (\<lambda>pageValues.
         drawBar firstPageOffset totalPages i pageValues fb)))"

definition totalPages :: "'f CSSD1306 \<Rightarrow> u8" where
  "totalPages s = m_nHeight s div 8 - 2"

definition barHeight :: "'f CSSD1306 \<Rightarrow> u8" where
  "barHeight s = m_nHeight s - 8 * 2"

definition DrawPartLevels ::
  "'f decls \<Rightarrow> (nat \<Rightarrow> nat \<Rightarrow> u8) \<Rightarrow> u8 \<Rightarrow> bool \<Rightarrow> 'f CSSD1306 \<Rightarrow> error + 'f CSSD1306" where
  "DrawPartLevels d junk nFirstRow bDrawPeaks s =
     (let firstPageOffset = uint nFirstRow * Width
      in bind (for_each [0..<9]
                 (drawPart d junk s firstPageOffset (totalPages s) (barHeight s) bDrawPeaks)
                 (m_Framebuffer s)) (\<lambda>fb.
         Inr (s\<lparr>m_Framebuffer := fb\<rparr>)))"

subsection \<open>Facade\<close>

text \<open>
  \<open>Print\<close>. The text is the characters before the terminating NUL, so that \<open>*pText\<close> is
  false exactly at the end of the list. The first loop returns the cursor it stopped at.
\<close>

fun Print_text :: "'f decls \<Rightarrow> string \<Rightarrow> u8 \<Rightarrow> u8 \<Rightarrow> 'f CSSD1306 \<Rightarrow> error + (u8 \<times> 'f CSSD1306)" where
  "Print_text d [] nCursorX nCursorY s = Inr (nCursorX, s)"
| "Print_text d (c # pText) nCursorX nCursorY s =
     (if nCursorX < 20
      then bind (DrawChar d c nCursorX nCursorY (default_bInverted d) (default_bDoubleWidth d) s)
             (Print_text d pText (nCursorX + 1) nCursorY)
      else Inr (nCursorX, s))"

function Print_clear :: "'f decls \<Rightarrow> u8 \<Rightarrow> u8 \<Rightarrow> 'f CSSD1306 \<Rightarrow> error + 'f CSSD1306" where
  "Print_clear d nCursorX nCursorY s =
     (if nCursorX < 20
      then (case DrawChar d (CHR '' '') nCursorX nCursorY
                   (default_bInverted d) (default_bDoubleWidth d) s of
              Inl e \<Rightarrow> Inl e
            | Inr s' \<Rightarrow> Print_clear d (nCursorX + 1) nCursorY s')
      else Inr s)"
  by pat_completeness auto
termination
  by (relation "measure (\<lambda>(d, nCursorX, nCursorY, s). 20 - unat nCursorX)")
     (auto simp: word_less_nat_alt unat_word_ariths)

declare Print_clear.simps [simp del]

definition Print :: "'f decls \<Rightarrow> string \<Rightarrow> u8 \<Rightarrow> u8 \<Rightarrow> bool \<Rightarrow> bool \<Rightarrow> 'f CSSD1306 \<Rightarrow> error + 'f CSSD1306" where
  "Print d pText nCursorX nCursorY bClearLine bImmediate s =
     bind (Print_text d pText nCursorX nCursorY s) (\<lambda>(nCursorX, s).
     bind (if bClearLine then Print_clear d nCursorX nCursorY s else Inr s) (\<lambda>s.
     if bImmediate then WriteFramebuffer s else Inr s))"

text \<open>
  \<open>Update\<close>. \<open>CMT32LCD::Update\<close>, \<open>UpdatePartLevels\<close> and \<open>UpdatePeakLevels\<close> belong
  to the base class, which is not among the sources: what they leave in its members (the
  text buffer and the levels) is given by \<open>text\<close>, \<open>levels\<close> and \<open>peaks\<close>.
\<close>

definition Update ::
  "'f decls \<Rightarrow> (nat \<Rightarrow> nat \<Rightarrow> u8) \<Rightarrow> string \<Rightarrow> (nat \<Rightarrow> 'f) \<Rightarrow> (nat \<Rightarrow> 'f) \<Rightarrow> 'f CSSD1306
     \<Rightarrow> error + 'f CSSD1306" where
  "Update d junk text levels peaks s =
     (let s = s\<lparr>m_TextBuffer := text, m_PartLevels := levels, m_PeakLevels := peaks\<rparr>
      in bind (DrawPartLevels d junk 0 (default_bDrawPeaks d) s) (\<lambda>s.
         let statusRow = (if m_nHeight s = 32 then 1 else 3)
         in bind (Print d (m_TextBuffer s) 0 statusRow True (default_bImmediate d) s)
              WriteFramebuffer))"

subsection \<open>An example configuration\<close>

text \<open>
  A concrete instance on which the theorems below are exercised: a release build
  (assertions compiled out) with a font of 97 glyphs, a framebuffer of
  \<open>128 * 64 / 8 + 1\<close> bytes, and levels that are rationals whose product with the bar
  height is truncated.
\<close>

definition example_decls :: "rat decls" where
  "example_decls =
     \<lparr>Font6x8 = replicate 97 [0x20, 0x10, 0x08, 0x04, 0x02, 0x01, 0x3F, 0x15],
      FramebufferSize = 1025,
      scale = (\<lambda>l h. word_of_int \<lfloor>l * of_int (uint h)\<rfloor>),
      default_bInverted = False, default_bDoubleWidth = False, default_bDrawPeaks = True,
      default_bImmediate = False, assertions = False\<rparr>"

definition example_lcd :: "u8 \<Rightarrow> rat CSSD1306" where
  "example_lcd nHeight =
     \<lparr>m_pI2CMaster = Some [], m_nAddress = 0x3C, m_nHeight = nHeight, m_Rotation = Normal,
      m_Framebuffer = 0x40 # replicate 1024 0,
      m_PartLevels = (\<lambda>i. 1 / 2), m_PeakLevels = (\<lambda>i. 3 / 4), m_TextBuffer = ''HELLO''\<rparr>"

subsection \<open>Pixel addressing, in the words of the specification\<close>

text \<open>
  Section 4.2 of the specification: \<open>x\<close> is masked to its low 7 bits and \<open>y\<close> to its low
  6 bits, the byte offset is \<open>((y & ~7) << 4) + x + 1\<close> and the bit is \<open>y & 7\<close>.
\<close>

definition spec_offset :: "u8 \<Rightarrow> u8 \<Rightarrow> nat" where
  "spec_offset x y = nat (push_bit 4 (uint (take_bit 6 y) AND NOT 7) + uint (take_bit 7 x) + 1)"

definition spec_bit :: "u8 \<Rightarrow> nat" where
  "spec_bit y = unat (take_bit 6 y AND 7)"

text \<open>The index that \<open>SetPixel\<close> and \<open>ClearPixel\<close> compute, as the source writes it.\<close>

definition pixel_index :: "u8 \<Rightarrow> u8 \<Rightarrow> int" where
  "pixel_index x y = push_bit 4 (uint (y AND 0x3F) AND 0xF8) + uint (x AND 0x7F) + 1"

text \<open>The example display with the pixel \<open>(0, 0)\<close> already lit.\<close>

definition lit_pixel_lcd :: "rat CSSD1306" where
  "lit_pixel_lcd = (example_lcd 64)\<lparr>m_Framebuffer := 0x40 # 0x01 # replicate 1023 0\<rparr>"

text \<open>The example display with every level and peak at 1.\<close>

definition full_lcd :: "u8 \<Rightarrow> rat CSSD1306" where
  "full_lcd nHeight = (example_lcd nHeight)\<lparr>m_PartLevels := (\<lambda>i. 1), m_PeakLevels := (\<lambda>i. 1)\<rparr>"

subsection \<open>Notions used in the statements\<close>

text \<open>
  \<open>Print\<close> in the words of the specification: the characters are blitted left to right
  from cell \<open>(x, y)\<close> until the string ends or column 20 is reached (\<open>zip\<close> stops at the
  shorter list), the remaining cells up to column 20 are padded with spaces if
  \<open>clearLine\<close>, and the framebuffer is flushed if \<open>immediate\<close>.
\<close>

definition Print_spec ::
  "'f decls \<Rightarrow> string \<Rightarrow> u8 \<Rightarrow> u8 \<Rightarrow> bool \<Rightarrow> bool \<Rightarrow> 'f CSSD1306 \<Rightarrow> error + 'f CSSD1306" where
  "Print_spec d text x y clearLine immediate s =
     (let blit = (\<lambda>(c, column). DrawChar d c (of_nat column) y
                    (default_bInverted d) (default_bDoubleWidth d));
          pad = (\<lambda>column. DrawChar d (CHR '' '') (of_nat column) y
                   (default_bInverted d) (default_bDoubleWidth d));
          drawn = length (zip text [unat x..<20])
      in bind (for_each (zip text [unat x..<20]) blit s) (\<lambda>s.
         bind (if clearLine then for_each [unat x + drawn..<20] pad s else Inr s) (\<lambda>s.
         if immediate then WriteFramebuffer s else Inr s)))"

text \<open>The font index that \<open>DrawChar\<close> computes for a character.\<close>

definition glyph_index :: "char \<Rightarrow> nat" where
  "glyph_index chChar =
     unat ((if (of_char chChar :: u8) = 0xFF then 0x80 else of_char chChar :: u8) - 0x20)"

text \<open>
  \<open>same_but_pixels s t\<close>: the object \<open>t\<close> differs from \<open>s\<close> at most in the bytes of the
  framebuffer after the first.
\<close>

definition same_but_pixels :: "'f CSSD1306 \<Rightarrow> 'f CSSD1306 \<Rightarrow> bool" where
  "same_but_pixels s t \<longleftrightarrow>
     t = s\<lparr>m_Framebuffer := m_Framebuffer t\<rparr>
     \<and> length (m_Framebuffer t) = length (m_Framebuffer s)
     \<and> m_Framebuffer t ! 0 = m_Framebuffer s ! 0"

section \<open>Properties\<close>

subsection \<open>Basic facts\<close>

lemma bind_Inr [simp]: "bind (Inr x) f = f x"
  by (simp add: bind_def)

lemma bind_Inl [simp]: "bind (Inl e) f = Inl e"
  by (simp add: bind_def)

lemma bind_eq_Inr: "bind m f = Inr y \<longleftrightarrow> (\<exists>x. m = Inr x \<and> f x = Inr y)"
  by (cases m) simp_all

lemma upt_8: "[0..<8] = [0, 1, 2, 3, 4, 5, 6, 7]"
  by (simp add: upt_rec)

lemma less_8_cases:
  "i < (8::nat) \<Longrightarrow> i = 0 \<or> i = 1 \<or> i = 2 \<or> i = 3 \<or> i = 4 \<or> i = 5 \<or> i = 6 \<or> i = 7"
  by arith

lemma int_bit_test: "(drop_bit i k AND 1 \<noteq> 0) = bit k i" for k :: int
  by (simp add: and_one_eq bit_iff_odd_drop_bit mod2_eq_if)

lemma word_bit_test: "(drop_bit i (uint x) AND 1 \<noteq> 0) = bit x i" for x :: u8
  by (auto simp: int_bit_test bit_uint_iff dest: bit_imp_le_length)

subsection \<open>Font tables\<close>

lemma DoubleColumn_even:
  "i < 8 \<Longrightarrow> bit (fold (DoubleColumn_step x) [0..<8] 0) (2 * i) = bit x i"
  apply (drule less_8_cases)
  apply (simp only: upt_8 DoubleColumn_step_def Let_def word_bit_test fold_simps)
  apply (elim disjE)
         apply (simp_all add: bit_simps)
  done

lemma DoubleColumn_odd:
  "i < 8 \<Longrightarrow> bit (fold (DoubleColumn_step x) [0..<8] 0) (2 * i + 1) = bit x i"
  apply (drule less_8_cases)
  apply (simp only: upt_8 DoubleColumn_step_def Let_def word_bit_test fold_simps)
  apply (elim disjE)
         apply (simp_all add: bit_simps)
  done

lemma Font_nth:
  "g < length font6x8 \<Longrightarrow> c < 6 \<Longrightarrow> Font font6x8 F ! g ! c = F (font6x8 ! g) (of_nat c)"
  by (simp add: Font_def)

text \<open>
  C2. For every glyph \<open>g\<close> of the font set and every column \<open>c < 6\<close>, the double-height
  entry is the single-height entry with each bit \<open>i\<close> copied to the bits \<open>2i\<close> and
  \<open>2i + 1\<close>; these are all sixteen bits of the entry.
\<close>

theorem FontDouble_duplicates_FontSingle:
  assumes "g < length font6x8" and "c < 6" and "i < 8"
  shows "bit (FontDouble font6x8 ! g ! c) (2 * i) = bit (FontSingle font6x8 ! g ! c) i
       \<and> bit (FontDouble font6x8 ! g ! c) (2 * i + 1) = bit (FontSingle font6x8 ! g ! c) i"
proof -
  let ?x = "SingleColumn (font6x8 ! g) (of_nat c)"
  have single: "FontSingle font6x8 ! g ! c = ?x"
    using assms by (simp add: FontSingle_def Font_nth)
  have double: "FontDouble font6x8 ! g ! c = fold (DoubleColumn_step ?x) [0..<8] 0"
    using assms by (simp add: FontDouble_def Font_nth DoubleColumn_def Let_def)
  show ?thesis
    unfolding single double
    using DoubleColumn_even [OF assms(3), of ?x] DoubleColumn_odd [OF assms(3), of ?x]
    by blast
qed

theorem FontDouble_duplicates_FontSingle_witness:
  "(0::nat) < length [[0x20, 0x10, 0x08, 0x04, 0x02, 0x01, 0x3F, 0x15 :: u8]] \<and> (0::nat) < 6
   \<and> (6::nat) < 8
   \<and> FontSingle [[0x20, 0x10, 0x08, 0x04, 0x02, 0x01, 0x3F, 0x15]] ! 0 ! 0 = 0x41
   \<and> bit (FontDouble [[0x20, 0x10, 0x08, 0x04, 0x02, 0x01, 0x3F, 0x15]] ! 0 ! 0) (2 * 6)
   \<and> bit (FontDouble [[0x20, 0x10, 0x08, 0x04, 0x02, 0x01, 0x3F, 0x15]] ! 0 ! 0) (2 * 6 + 1)"
proof -
  have single: "FontSingle [[0x20, 0x10, 0x08, 0x04, 0x02, 0x01, 0x3F, 0x15]] ! 0 ! 0 = 0x41"
    by (simp add: FontSingle_def Font_def SingleColumn_def SingleColumn_step_def upt_8 upt_rec)
  have six: "bit (0x41 :: u8) 6"
    by simp
  show ?thesis
    using FontDouble_duplicates_FontSingle
      [of 0 "[[0x20, 0x10, 0x08, 0x04, 0x02, 0x01, 0x3F, 0x15]]" 0 6] single six
    by simp
qed

subsection \<open>Initialisation\<close>

text \<open>
  C8. With a height that is neither 32 nor 64, \<open>Initialize\<close> returns \<open>false\<close> and leaves
  the object as it was, the record of the bus writes included: nothing is written. (The
  assertion on the bus pointer comes before the check of the height; it holds when the
  pointer is set or assertions are compiled out.)
\<close>

theorem Initialize_unsupported_height:
  assumes "m_nHeight s \<noteq> 32" and "m_nHeight s \<noteq> 64"
    and "\<not> assertions d \<or> m_pI2CMaster s \<noteq> None"
  shows "Initialize d s = Inr (False, s)"
  using assms by (auto simp: Initialize_def)

theorem Initialize_unsupported_height_witness:
  "CSSD1306 example_decls (Some []) 0x3C 48 Normal (\<lambda>i. 1 / 2) (\<lambda>i. 3 / 4) ''HELLO''
     = Inr (example_lcd 48)
   \<and> m_nHeight (example_lcd 48) \<noteq> 32 \<and> m_nHeight (example_lcd 48) \<noteq> 64
   \<and> \<not> assertions example_decls
   \<and> Initialize example_decls (example_lcd 48) = Inr (False, example_lcd 48)
   \<and> m_pI2CMaster (example_lcd 48) = Some []"
proof -
  have built: "CSSD1306 example_decls (Some []) 0x3C 48 Normal (\<lambda>i. 1 / 2) (\<lambda>i. 3 / 4) ''HELLO''
     = Inr (example_lcd 48)"
    by (simp add: CSSD1306_def example_decls_def example_lcd_def)
  have h: "m_nHeight (example_lcd 48) \<noteq> 32" "m_nHeight (example_lcd 48) \<noteq> 64"
    "\<not> assertions example_decls \<or> m_pI2CMaster (example_lcd 48) \<noteq> None"
    by (simp_all add: example_lcd_def example_decls_def)
  have bus: "m_pI2CMaster (example_lcd 48) = Some []"
    by (simp add: example_lcd_def)
  have release: "\<not> assertions example_decls"
    by (simp add: example_decls_def)
  show ?thesis
    using built h(1,2) release bus Initialize_unsupported_height [OF h] by simp
qed

subsection \<open>Pixel primitives\<close>


lemma word_of_int_uint_or: "(word_of_int (uint v OR k) :: u8) = v OR word_of_int k"
  by (simp add: bit_eq_iff bit_simps) 

lemma word_of_int_uint_and: "(word_of_int (uint v AND k) :: u8) = v AND word_of_int k"
  by (simp add: bit_eq_iff bit_simps) 

lemma store_set_bit: "(word_of_int (uint v OR push_bit n 1) :: u8) = set_bit n v"
  by (simp add: word_of_int_uint_or set_bit_eq_or)

lemma store_unset_bit: "(word_of_int (uint v AND NOT (push_bit n 1)) :: u8) = unset_bit n v"
  by (simp add: word_of_int_uint_and unset_bit_eq_and_not) (simp add: bit_eq_iff bit_simps)

lemma and_7F: "x AND 0x7F = take_bit 7 x" for x :: u8
  by (simp add: take_bit_eq_mask mask_numeral)

lemma and_3F: "x AND 0x3F = take_bit 6 x" for x :: u8
  by (simp add: take_bit_eq_mask mask_numeral)

lemma uint_and_7: "uint w AND 7 = uint (w AND 7)" for w :: u8
  using uint_and [of w 7] by simp

lemma uint_and_F8: "uint w AND 0xF8 = uint (w AND 0xF8)" for w :: u8
  using uint_and [of w "0xF8"] by simp

lemma uint_and_255: "uint w AND 255 = uint w" for w :: u8
proof -
  have "(255::u8) = - 1" by simp
  then have "w AND 255 = w" by (simp only: and.right_neutral)
  then show ?thesis using uint_and [of w 255] by simp
qed

lemma uint_and_not_7: "uint w AND NOT 7 = uint (w AND 0xF8)" for w :: u8
proof -
  have "uint w AND NOT 7 = (uint w AND 255) AND NOT 7" by (simp only: uint_and_255)
  also have "\<dots> = uint w AND (255 AND NOT 7)" by (simp only: and.assoc)
  also have "\<dots> = uint w AND 248" by simp
  finally show ?thesis by (simp only: uint_and_F8)
qed

lemma pixel_index_eq: "pixel_index x y = 16 * uint (y AND 0x38) + uint (x AND 0x7F) + 1"
proof -
  have "(y AND 0x3F) AND 0xF8 = y AND 0x38"
    by (simp add: and.assoc)
  then show ?thesis
    by (simp only: pixel_index_def uint_and_F8 push_bit_eq_mult) simp
qed

lemma pixel_index_bounds: "0 < pixel_index x y" "pixel_index x y \<le> 1024"
proof -
  have y: "uint (y AND 0x38) \<le> 56"
    using word_and_le1 [of y "0x38", THEN word_le_def [THEN iffD1]] by simp
  have x: "uint (x AND 0x7F) \<le> 127"
    using word_and_le1 [of x "0x7F", THEN word_le_def [THEN iffD1]] by simp
  show "0 < pixel_index x y"
    by (simp add: pixel_index_eq add_pos_nonneg)
  show "pixel_index x y \<le> 1024"
    using x y by (simp add: pixel_index_eq)
qed

lemma spec_offset_eq: "spec_offset x y = nat (pixel_index x y)"
proof -
  have "(y AND 0x3F) AND 0xF8 = y AND 0x38"
    by (simp add: and.assoc)
  then show ?thesis
    by (simp only: spec_offset_def pixel_index_eq uint_and_not_7 push_bit_eq_mult
        flip: and_7F and_3F) simp
qed

lemma spec_bit_eq: "spec_bit y = nat (uint (y AND 0x3F) AND 7)"
  by (simp only: spec_bit_def uint_and_7 flip: and_3F) simp

lemma spec_offset_bounds: "0 < spec_offset x y" "spec_offset x y \<le> 1024"
  using pixel_index_bounds [of x y] by (simp_all add: spec_offset_eq)

lemma SetPixel_result:
  assumes "1024 < length (m_Framebuffer s)"
  shows "SetPixel nX nY s =
     Inr (s\<lparr>m_Framebuffer := (m_Framebuffer s)
             [spec_offset nX nY := set_bit (spec_bit nY) (m_Framebuffer s ! spec_offset nX nY)]\<rparr>)"
proof -
  have "SetPixel nX nY s =
      bind (load (m_Framebuffer s) (pixel_index nX nY)) (\<lambda>v.
      bind (store (m_Framebuffer s) (pixel_index nX nY) (set_bit (spec_bit nY) v)) (\<lambda>fb.
      Inr (s\<lparr>m_Framebuffer := fb\<rparr>)))"
    by (simp only: SetPixel_def Let_def pixel_index_def store_set_bit spec_bit_eq)
  then show ?thesis
    using assms pixel_index_bounds [of nX nY]
    by (simp add: load_def store_def spec_offset_eq)
qed

lemma ClearPixel_result:
  assumes "1024 < length (m_Framebuffer s)"
  shows "ClearPixel nX nY s =
     Inr (s\<lparr>m_Framebuffer := (m_Framebuffer s)
             [spec_offset nX nY := unset_bit (spec_bit nY) (m_Framebuffer s ! spec_offset nX nY)]\<rparr>)"
proof -
  have "ClearPixel nX nY s =
      bind (load (m_Framebuffer s) (pixel_index nX nY)) (\<lambda>v.
      bind (store (m_Framebuffer s) (pixel_index nX nY) (unset_bit (spec_bit nY) v)) (\<lambda>fb.
      Inr (s\<lparr>m_Framebuffer := fb\<rparr>)))"
    by (simp only: ClearPixel_def Let_def pixel_index_def store_unset_bit spec_bit_eq)
  then show ?thesis
    using assms pixel_index_bounds [of nX nY]
    by (simp add: load_def store_def spec_offset_eq)
qed

text \<open>
  C4. For every pair of coordinates, \<open>SetPixel\<close> and \<open>ClearPixel\<close> mask \<open>x\<close> to 7 bits
  and \<open>y\<close> to 6 bits and succeed (there is no bounds error) on a framebuffer that holds the
  128x64 geometry; they change the one byte at offset \<open>((y & ~7) << 4) + x + 1\<close>, setting
  or clearing there the bit \<open>y & 7\<close>.
\<close>

theorem SetPixel_ClearPixel_address:
  assumes "1024 < length (m_Framebuffer s)"
  shows "(let x = take_bit 7 nX; y = take_bit 6 nY;
              off = nat (push_bit 4 (uint y AND NOT 7) + uint x + 1);
              b = unat (y AND 7);
              fb = m_Framebuffer s
          in SetPixel nX nY s = Inr (s\<lparr>m_Framebuffer := fb[off := set_bit b (fb ! off)]\<rparr>)
           \<and> ClearPixel nX nY s = Inr (s\<lparr>m_Framebuffer := fb[off := unset_bit b (fb ! off)]\<rparr>)
           \<and> 0 < off \<and> off < length fb)"
  using assms SetPixel_result [OF assms, of nX nY] ClearPixel_result [OF assms, of nX nY]
    spec_offset_bounds [of nX nY]
  by (simp add: Let_def spec_offset_def spec_bit_def)

theorem SetPixel_ClearPixel_address_witness:
  "1024 < length (m_Framebuffer (example_lcd 64))
   \<and> SetPixel 255 9 (example_lcd 64)
       = Inr ((example_lcd 64)\<lparr>m_Framebuffer := (m_Framebuffer (example_lcd 64))[256 := 2]\<rparr>)"
proof -
  have len: "1024 < length (m_Framebuffer (example_lcd 64))"
    by (simp add: example_lcd_def)
  have byte: "m_Framebuffer (example_lcd 64) ! 256 = 0"
    by (simp add: example_lcd_def)
  show ?thesis
    using SetPixel_ClearPixel_address [OF len, of 255 9] len byte by (simp add: Let_def)
qed

lemma unset_bit_set_bit: "unset_bit n (set_bit n v) = unset_bit n v" for v :: u8
  by (rule bit_eqI) (auto simp: bit_unset_bit_iff bit_set_bit_iff)

lemma unset_bit_same_iff: "unset_bit n v = v \<longleftrightarrow> \<not> bit v n" for v :: u8
proof
  assume "unset_bit n v = v"
  then have "bit v n = bit (unset_bit n v) n"
    by simp
  then show "\<not> bit v n"
    by (simp add: bit_unset_bit_iff)
next
  assume "\<not> bit v n"
  then show "unset_bit n v = v"
    by (intro bit_eqI) (auto simp: bit_unset_bit_iff)
qed

lemma m_Framebuffer_update_same_iff:
  "s\<lparr>m_Framebuffer := fb\<rparr> = s \<longleftrightarrow> fb = m_Framebuffer s"
  by (cases s) auto

lemma SetPixel_ClearPixel_result:
  assumes "1024 < length (m_Framebuffer s)"
  shows "bind (SetPixel nX nY s) (ClearPixel nX nY) =
           Inr (s\<lparr>m_Framebuffer := (m_Framebuffer s)
                  [spec_offset nX nY := unset_bit (spec_bit nY) (m_Framebuffer s ! spec_offset nX nY)]\<rparr>)"
  using assms spec_offset_bounds [of nX nY]
  by (simp add: SetPixel_result ClearPixel_result unset_bit_set_bit)

lemma SetPixel_wraps: "SetPixel nX nY s = SetPixel (nX AND 0x7F) (nY AND 0x3F) s"
  by (simp add: SetPixel_def and.assoc)

lemma ClearPixel_wraps: "ClearPixel nX nY s = ClearPixel (nX AND 0x7F) (nY AND 0x3F) s"
  by (simp add: ClearPixel_def and.assoc)

text \<open>
  C5, as amended. \<open>SetPixel(x, y)\<close> followed by \<open>ClearPixel(x, y)\<close> leaves the addressed
  byte equal to its value before with the bit \<open>y & 7\<close> cleared, and every other byte as it
  was; the state before is restored exactly when the pixel was not lit before. Coordinates
  out of range act as their masked values.
\<close>

theorem SetPixel_then_ClearPixel:
  assumes "1024 < length (m_Framebuffer s)"
  shows "bind (SetPixel nX nY s) (ClearPixel nX nY) =
           Inr (s\<lparr>m_Framebuffer := (m_Framebuffer s)
                  [spec_offset nX nY := unset_bit (spec_bit nY) (m_Framebuffer s ! spec_offset nX nY)]\<rparr>)
       \<and> (bind (SetPixel nX nY s) (ClearPixel nX nY) = Inr s
            \<longleftrightarrow> \<not> bit (m_Framebuffer s ! spec_offset nX nY) (spec_bit nY))
       \<and> SetPixel nX nY s = SetPixel (nX AND 0x7F) (nY AND 0x3F) s
       \<and> ClearPixel nX nY s = ClearPixel (nX AND 0x7F) (nY AND 0x3F) s"
proof -
  have restored: "bind (SetPixel nX nY s) (ClearPixel nX nY) = Inr s
            \<longleftrightarrow> \<not> bit (m_Framebuffer s ! spec_offset nX nY) (spec_bit nY)"
    using assms spec_offset_bounds [of nX nY]
    by (simp add: SetPixel_ClearPixel_result m_Framebuffer_update_same_iff
        list_update_same_conv unset_bit_same_iff eq_commute [of _ "unset_bit _ _"])
  show ?thesis
    using SetPixel_ClearPixel_result [OF assms] restored
      SetPixel_wraps [of nX nY s] ClearPixel_wraps [of nX nY s]
    by blast
qed

theorem SetPixel_then_ClearPixel_witness:
  "1024 < length (m_Framebuffer (example_lcd 64))
   \<and> bind (SetPixel 255 9 (example_lcd 64)) (ClearPixel 255 9) = Inr (example_lcd 64)
   \<and> SetPixel 255 9 (example_lcd 64) = SetPixel 127 9 (example_lcd 64)"
proof -
  have len: "1024 < length (m_Framebuffer (example_lcd 64))"
    by (simp add: example_lcd_def)
  have off: "spec_offset 255 9 = 256" "spec_bit 9 = 1"
    by (simp_all add: spec_offset_def spec_bit_def)
  have clear: "\<not> bit (m_Framebuffer (example_lcd 64) ! 256) (1::nat)"
    by (simp add: example_lcd_def)
  have wrap: "(255::u8) AND 0x7F = 127" "(9::u8) AND 0x3F = 9"
    by simp_all
  show ?thesis
    using SetPixel_then_ClearPixel [OF len, of 255 9] len clear
    unfolding off wrap by blast
qed

text \<open>
  C5 as stated fails where the pixel is lit beforehand: the byte at offset 1 is 1 before
  and 0 after.
\<close>

theorem SetPixel_ClearPixel_loses_lit_pixel:
  "m_Framebuffer lit_pixel_lcd ! 1 = 1
   \<and> bind (SetPixel 0 0 lit_pixel_lcd) (ClearPixel 0 0)
       = Inr (lit_pixel_lcd\<lparr>m_Framebuffer := (m_Framebuffer lit_pixel_lcd)[1 := 0]\<rparr>)"
  by (simp add: lit_pixel_lcd_def example_lcd_def SetPixel_def ClearPixel_def load_def store_def)

subsection \<open>Page values of a bar\<close>

lemma for_each_store_range:
  "lo \<le> hi \<Longrightarrow> hi \<le> length pv \<Longrightarrow>
   for_each [lo..<hi] (\<lambda>j pv. store pv (int j) c) pv =
     Inr (map (\<lambda>j. if lo \<le> j \<and> j < hi then c else pv ! j) [0..<length pv])"
proof (induction "hi - lo" arbitrary: lo pv)
  case 0
  then show ?case by (auto intro!: nth_equalityI)
next
  case (Suc n)
  then have lt: "lo < hi" and n: "n = hi - Suc lo" and le: "Suc lo \<le> hi"
    by arith+
  have len: "hi \<le> length (pv[lo := c])"
    using Suc.prems by simp
  have "for_each [lo..<hi] (\<lambda>j pv. store pv (int j) c) pv =
      for_each [Suc lo..<hi] (\<lambda>j pv. store pv (int j) c) (pv[lo := c])"
    using lt Suc.prems by (simp add: upt_conv_Cons store_def)
  also have "\<dots> = Inr (map (\<lambda>j. if Suc lo \<le> j \<and> j < hi then c else pv[lo := c] ! j)
                         [0..<length (pv[lo := c])])"
    by (rule Suc.hyps(1) [OF n le len])
  also have "map (\<lambda>j. if Suc lo \<le> j \<and> j < hi then c else pv[lo := c] ! j) [0..<length (pv[lo := c])]
      = map (\<lambda>j. if lo \<le> j \<and> j < hi then c else pv ! j) [0..<length pv]"
    using lt Suc.prems by (auto simp: nth_list_update)
  finally show ?case .
qed

lemma supported_height:
  assumes "m_nHeight s = 32 \<or> m_nHeight s = 64"
  shows "unat (barHeight s) = 8 * unat (totalPages s)" "0 < unat (totalPages s)"
  using assms by (auto simp: barHeight_def totalPages_def)

lemma mask_store: "(word_of_int (push_bit n 0xFF) :: u8) = push_bit n 0xFF"
  by (simp add: of_int_push_bit)

lemma fillPageValues_result:
  assumes h: "m_nHeight s = 32 \<or> m_nHeight s = 64"
    and len: "length pv = unat (totalPages s)"
    and p: "p \<le> barHeight s"
  shows "fillPageValues (totalPages s) p pv =
     Inr (map (\<lambda>j. if j < unat (p div 8) then 0xFF
                    else if j = unat (p div 8) \<and> p mod 8 \<noteq> 0
                         then push_bit (8 - unat (p mod 8)) 0xFF
                         else 0)
            [0..<unat (totalPages s)])"
proof -
  let ?tp = "unat (totalPages s)" and ?fp = "unat (p div 8)"
  have bound: "unat p \<le> 8 * ?tp"
    using p supported_height(1) [OF h] by (simp add: word_le_nat_alt)
  have fp: "?fp = unat p div 8"
    by (simp add: unat_div)
  have fp_le: "?fp \<le> ?tp"
    using bound by (simp add: fp)
  have rem: "unat (p mod 8) = unat p mod 8"
    by (simp add: unat_mod)
  have rem0: "p mod 8 \<noteq> 0 \<longleftrightarrow> unat p mod 8 \<noteq> 0"
    by (simp add: rem [symmetric] unat_eq_0)
  have fp_lt: "p mod 8 \<noteq> 0 \<Longrightarrow> ?fp < ?tp"
    using bound unfolding rem0 fp by arith
  let ?pv1 = "map (\<lambda>j. if j < ?fp then 0xFF else pv ! j) [0..<length pv]"
  let ?pv2 = "map (\<lambda>j. if j < ?fp then 0xFF else 0 :: u8) [0..<?tp]"
  have l1: "for_each [0..<?fp] (\<lambda>j pv. store pv (int j) 0xFF) pv = Inr ?pv1"
    using fp_le len for_each_store_range [where lo = 0 and hi = ?fp and pv = pv and c = "0xFF"]
    by simp
  have l2: "for_each [?fp..<?tp] (\<lambda>j pv. store pv (int j) 0) ?pv1 = Inr ?pv2"
  proof -
    have "for_each [?fp..<?tp] (\<lambda>j pv. store pv (int j) 0) ?pv1
        = Inr (map (\<lambda>j. if ?fp \<le> j \<and> j < ?tp then 0 else ?pv1 ! j) [0..<length ?pv1])"
      using fp_le len by (intro for_each_store_range) simp_all
    also have "map (\<lambda>j. if ?fp \<le> j \<and> j < ?tp then 0 else ?pv1 ! j) [0..<length ?pv1] = ?pv2"
      using len by (auto intro!: nth_equalityI)
    finally show ?thesis .
  qed
  show ?thesis
  proof (cases "p mod 8 = 0")
    case True
    then show ?thesis
      by (simp add: fillPageValues_def Let_def l1 l2)
  next
    case False
    have "store ?pv2 (uint (p div 8)) (word_of_int (push_bit (nat (8 - uint (p mod 8))) 0xFF))
        = Inr (?pv2[?fp := push_bit (8 - unat (p mod 8)) 0xFF])"
      using fp_lt [OF False] len
      by (simp add: store_def mask_store nat_diff_distrib' word_less_nat_alt
          flip: word_less_def)
    also have "?pv2[?fp := push_bit (8 - unat (p mod 8)) 0xFF]
        = map (\<lambda>j. if j < ?fp then 0xFF
                    else if j = ?fp \<and> p mod 8 \<noteq> 0 then push_bit (8 - unat (p mod 8)) 0xFF
                    else 0) [0..<?tp]"
      using False fp_lt [OF False] len
      by (auto intro!: nth_equalityI simp: nth_list_update)
    finally show ?thesis
      using False by (simp add: fillPageValues_def Let_def l1 l2)
  qed
qed


text \<open>
  C1. On a display of height 32 or 64, for a level whose pixel count \<open>level * barHeight\<close>
  does not exceed \<open>barHeight\<close> (as for every level in \<open>[0, 1]\<close>), the page values built
  for the part are \<open>0xFF\<close> in the pages below \<open>fullPages\<close>, \<open>0xFF << (8 - remainder)\<close>
  in page \<open>fullPages\<close> when \<open>remainder > 0\<close>, and 0 in all other pages up to
  \<open>totalPages\<close>, whatever the array held before. The instance that follows is the level
  0.5 on a 64-pixel display: 24 pixels, 3 full pages, remainder 0.
\<close>

theorem fillPageValues_pattern:
  assumes "m_nHeight s = 32 \<or> m_nHeight s = 64"
    and "scale d (m_PartLevels s i) (barHeight s) \<le> barHeight s"
  shows "(let levelPixels = scale d (m_PartLevels s i) (barHeight s);
              fullPages = levelPixels div 8;
              remainder = levelPixels mod 8
          in fillPageValues (totalPages s) levelPixels (map (junk i) [0..<unat (totalPages s)]) =
               Inr (map (\<lambda>j. if j < unat fullPages then 0xFF
                              else if j = unat fullPages \<and> remainder \<noteq> 0
                                   then push_bit (8 - unat remainder) 0xFF
                                   else 0)
                      [0..<unat (totalPages s)]))"
  using fillPageValues_result [OF assms(1) _ assms(2), of "map (junk i) [0..<unat (totalPages s)]"]
  by (simp add: Let_def)

theorem fillPageValues_pattern_witness:
  "m_nHeight (example_lcd 64) = 64
   \<and> barHeight (example_lcd 64) = 48
   \<and> totalPages (example_lcd 64) = 6
   \<and> scale example_decls (m_PartLevels (example_lcd 64) 0) 48 = 24
   \<and> (24 :: u8) div 8 = 3 \<and> (24 :: u8) mod 8 = 0
   \<and> fillPageValues 6 24 (map (\<lambda>j. 0xAA) [0..<6]) = Inr [0xFF, 0xFF, 0xFF, 0, 0, 0]"
proof -
  have h: "m_nHeight (example_lcd 64) = 32 \<or> m_nHeight (example_lcd 64) = 64"
    and h64: "m_nHeight (example_lcd 64) = 64"
    by (simp_all add: example_lcd_def)
  have bh: "barHeight (example_lcd 64) = 48" and tp: "totalPages (example_lcd 64) = 6"
    by (simp_all add: barHeight_def totalPages_def example_lcd_def)
  have px: "scale example_decls (m_PartLevels (example_lcd 64) 0) 48 = 24"
    by (simp add: example_decls_def example_lcd_def)
  have le: "scale example_decls (m_PartLevels (example_lcd 64) 0) (barHeight (example_lcd 64))
      \<le> barHeight (example_lcd 64)"
    by (simp add: bh px)
  have six: "[0..<6] = [0, 1, 2, 3, 4, 5]"
    by (simp add: upt_rec)
  show ?thesis
    using fillPageValues_pattern [OF h le, of "\<lambda>i j. 0xAA"] h64 px
    by (simp add: bh tp Let_def six)
qed

lemma uint_less_int: "unat w < n \<Longrightarrow> uint w < int n"
  by (simp only: uint_nat of_nat_less_iff)

lemma uint_pred: "0 < unat w \<Longrightarrow> unat w - 1 < n \<Longrightarrow>
    0 \<le> uint w - 1 \<and> uint w - 1 < int n \<and> nat (uint w - 1) = unat w - 1"
  unfolding uint_nat by arith

lemma peakMarker_result:
  assumes h: "m_nHeight s = 32 \<or> m_nHeight s = 64"
    and len: "length pv = unat (totalPages s)"
    and p: "p \<le> barHeight s"
    and drawn: "bDrawPeaks" "p \<noteq> 0"
  shows "p mod 8 \<noteq> 0 \<Longrightarrow> unat (p div 8) < length pv"
    and "p mod 8 \<noteq> 0 \<Longrightarrow> peakMarker bDrawPeaks p pv =
           Inr (pv[unat (p div 8) := pv ! unat (p div 8) OR push_bit (8 - unat (p mod 8)) 1])"
    and "p mod 8 = 0 \<Longrightarrow> 8 \<le> unat p \<and> 0 < unat (p div 8) \<and> unat (p div 8) - 1 < length pv"
    and "p mod 8 = 0 \<Longrightarrow> peakMarker bDrawPeaks p pv =
           Inr (pv[unat (p div 8) - 1 := pv ! (unat (p div 8) - 1) OR 1])"
proof -
  let ?tp = "unat (totalPages s)" and ?pp = "unat (p div 8)"
  have bound: "unat p \<le> 8 * ?tp"
    using p supported_height(1) [OF h] by (simp add: word_le_nat_alt)
  have pp: "?pp = unat p div 8"
    by (simp add: unat_div)
  have rem: "unat (p mod 8) = unat p mod 8"
    by (simp add: unat_mod)
  have rem0: "p mod 8 = 0 \<longleftrightarrow> unat p mod 8 = 0"
    by (simp add: rem [symmetric] unat_eq_0)
  have pos: "0 < unat p"
    using drawn(2) by (simp add: unat_gt_0)
  show lt: "?pp < length pv" if "p mod 8 \<noteq> 0"
    using that bound unfolding rem0 pp len by arith
  show bd: "8 \<le> unat p \<and> 0 < ?pp \<and> ?pp - 1 < length pv" if "p mod 8 = 0"
    using that bound pos unfolding rem0 pp len by arith
  show "peakMarker bDrawPeaks p pv =
      Inr (pv[?pp := pv ! ?pp OR push_bit (8 - unat (p mod 8)) 1])" if "p mod 8 \<noteq> 0"
  proof -
    have idx: "uint (p div 8) < int (length pv)"
      using lt [OF that] by (rule uint_less_int)
    show ?thesis
      using that drawn idx
      by (simp add: peakMarker_def Let_def load_def store_def word_of_int_uint_or
          of_int_push_bit nat_diff_distrib')
  qed
  show "peakMarker bDrawPeaks p pv = Inr (pv[?pp - 1 := pv ! (?pp - 1) OR 1])" if "p mod 8 = 0"
  proof -
    have idx: "0 \<le> uint (p div 8) - 1" "uint (p div 8) - 1 < int (length pv)"
      "nat (uint (p div 8) - 1) = ?pp - 1"
      using bd [OF that] uint_pred [of "p div 8" "length pv"] by simp_all
    show ?thesis
      using that drawn idx
      by (simp add: peakMarker_def Let_def load_def store_def word_of_int_uint_or)
  qed
qed


text \<open>
  C3. When the peak marker is drawn (peaks requested and \<open>peakPixels > 0\<close>, with the peak
  within the bar height): if \<open>peakRemainder > 0\<close> the single bit \<open>8 - peakRemainder\<close> is
  OR-ed into page \<open>peakPage\<close>, otherwise bit 0 is OR-ed into page \<open>peakPage - 1\<close>; no
  other page changes. The instance that follows is \<open>peakPixels = 16\<close> on a 64-pixel
  display: the bit lands in page 1, not in page 2.
\<close>

theorem peakMarker_position:
  assumes "m_nHeight s = 32 \<or> m_nHeight s = 64"
    and "length pageValues = unat (totalPages s)"
    and "peakPixels \<le> barHeight s"
    and "bDrawPeaks" and "peakPixels \<noteq> 0"
  shows "(let peakPage = unat (peakPixels div 8);
              peakRemainder = unat (peakPixels mod 8)
          in peakMarker bDrawPeaks peakPixels pageValues =
               Inr (if 0 < peakRemainder
                    then pageValues[peakPage :=
                           pageValues ! peakPage OR push_bit (8 - peakRemainder) 1]
                    else pageValues[peakPage - 1 :=
                           pageValues ! (peakPage - 1) OR push_bit 0 1])
           \<and> (if 0 < peakRemainder then peakPage < length pageValues
               else 0 < peakPage \<and> peakPage - 1 < length pageValues))"
proof (cases "peakPixels mod 8 = 0")
  case True
  then show ?thesis
    using peakMarker_result(3,4) [OF assms True]
    by (simp add: Let_def)
next
  case False
  then have "0 < unat (peakPixels mod 8)"
    by (simp add: unat_gt_0)
  then show ?thesis
    using peakMarker_result(1,2) [OF assms False]
    by (simp add: Let_def)
qed

theorem peakMarker_position_witness:
  "m_nHeight (example_lcd 64) = 64
   \<and> length [0xFF, 0xFF, 0, 0, 0, 0 :: u8] = unat (totalPages (example_lcd 64))
   \<and> (16 :: u8) \<le> barHeight (example_lcd 64)
   \<and> unat ((16 :: u8) div 8) = 2
   \<and> peakMarker True 16 [0xFF, 0xFF, 0, 0, 0, 0] = Inr [0xFF, 0xFF, 0, 0, 0, 0]
   \<and> peakMarker True 16 [0xFF, 0xFE, 0, 0, 0, 0] = Inr [0xFF, 0xFF, 0, 0, 0, 0]"
proof -
  have h: "m_nHeight (example_lcd 64) = 32 \<or> m_nHeight (example_lcd 64) = 64"
    and h64: "m_nHeight (example_lcd 64) = 64"
    by (simp_all add: example_lcd_def)
  have bh: "barHeight (example_lcd 64) = 48" and tp: "totalPages (example_lcd 64) = 6"
    by (simp_all add: barHeight_def totalPages_def example_lcd_def)
  have len: "length [0xFF, 0xFF, 0, 0, 0, 0 :: u8] = unat (totalPages (example_lcd 64))"
    "length [0xFF, 0xFE, 0, 0, 0, 0 :: u8] = unat (totalPages (example_lcd 64))"
    by (simp_all add: tp)
  have le: "(16 :: u8) \<le> barHeight (example_lcd 64)"
    by (simp add: bh)
  show ?thesis
    using peakMarker_position [OF h len(1) le, of True] peakMarker_position [OF h len(2) le, of True]
      h64 len(1) le
    by (simp add: Let_def)
qed

text \<open>
  C9. With the peak within the bar height, the peak-marker branch accesses \<open>pageValues\<close>
  within its bounds only (no access is \<open>OutOfBounds\<close>): when \<open>peakLevelPixels > 0\<close> is a
  multiple of 8 it is at least 8, so \<open>peakPage \<ge> 1\<close> and the index \<open>peakPage - 1\<close> is not
  negative.
\<close>

theorem peakMarker_in_bounds:
  assumes "m_nHeight s = 32 \<or> m_nHeight s = 64"
    and "length pageValues = unat (totalPages s)"
    and "peakLevelPixels \<le> barHeight s"
  shows "(\<exists>pv. peakMarker bDrawPeaks peakLevelPixels pageValues = Inr pv)
       \<and> (peakLevelPixels \<noteq> 0 \<and> peakLevelPixels mod 8 = 0 \<longrightarrow>
            8 \<le> unat peakLevelPixels \<and> 1 \<le> uint (peakLevelPixels div 8)
            \<and> 0 \<le> uint (peakLevelPixels div 8) - 1
            \<and> uint (peakLevelPixels div 8) - 1 < int (length pageValues))
       \<and> (peakLevelPixels mod 8 \<noteq> 0 \<longrightarrow>
            0 \<le> uint (peakLevelPixels div 8)
            \<and> uint (peakLevelPixels div 8) < int (length pageValues))"
proof (cases "bDrawPeaks \<and> peakLevelPixels \<noteq> 0")
  case False
  have "peakLevelPixels mod 8 = 0" if "peakLevelPixels = 0"
    using that by simp
  moreover have "uint (peakLevelPixels div 8) < int (length pageValues)"
    if "peakLevelPixels mod 8 \<noteq> 0"
  proof -
    from that have "peakLevelPixels \<noteq> 0"
      by auto
    then show ?thesis
      using peakMarker_result(1) [OF assms, of True] that by (auto intro: uint_less_int)
  qed
  moreover have "8 \<le> unat peakLevelPixels \<and> 1 \<le> uint (peakLevelPixels div 8)
      \<and> 0 \<le> uint (peakLevelPixels div 8) - 1
      \<and> uint (peakLevelPixels div 8) - 1 < int (length pageValues)"
    if "peakLevelPixels \<noteq> 0" "peakLevelPixels mod 8 = 0"
    using peakMarker_result(3) [OF assms, of True] that
      uint_pred [of "peakLevelPixels div 8" "length pageValues"] by simp
  ultimately show ?thesis
    using False by (auto simp: peakMarker_def)
next
  case True
  then have drawn: "bDrawPeaks" "peakLevelPixels \<noteq> 0"
    by simp_all
  show ?thesis
  proof (cases "peakLevelPixels mod 8 = 0")
    case True
    show ?thesis
      using peakMarker_result(3,4) [OF assms drawn True] True
        uint_pred [of "peakLevelPixels div 8" "length pageValues"]
      by simp
  next
    case False
    show ?thesis
      using peakMarker_result(1,2) [OF assms drawn False] False
      by (auto intro: uint_less_int)
  qed
qed

theorem peakMarker_in_bounds_witness:
  "m_nHeight (example_lcd 32) = 32
   \<and> length [0xFF, 0xFF :: u8] = unat (totalPages (example_lcd 32))
   \<and> (8 :: u8) \<le> barHeight (example_lcd 32)
   \<and> (8 :: u8) \<noteq> 0 \<and> (8 :: u8) mod 8 = 0
   \<and> uint ((8 :: u8) div 8) - 1 = 0
   \<and> peakMarker True 8 [0xFE, 0] = Inr [0xFF, 0]"
proof -
  have h: "m_nHeight (example_lcd 32) = 32 \<or> m_nHeight (example_lcd 32) = 64"
    and h32: "m_nHeight (example_lcd 32) = 32"
    by (simp_all add: example_lcd_def)
  have bh: "barHeight (example_lcd 32) = 16" and tp: "totalPages (example_lcd 32) = 2"
    by (simp_all add: barHeight_def totalPages_def example_lcd_def)
  have len: "length [0xFF, 0xFF :: u8] = unat (totalPages (example_lcd 32))"
    "length [0xFE, 0 :: u8] = unat (totalPages (example_lcd 32))"
    by (simp_all add: tp)
  have le: "(8 :: u8) \<le> barHeight (example_lcd 32)"
    by (simp add: bh)
  have run: "peakMarker True 8 [0xFE, 0] = Inr [0xFF, 0]"
    by (simp add: peakMarker_def load_def store_def)
  show ?thesis
    using peakMarker_in_bounds [OF h len(2) le, of True] h32 len(1) le run
    by simp
qed

subsection \<open>Loops and frames\<close>

lemma for_each_invariant:
  assumes "for_each xs body s = Inr s'" and "I s"
    and "\<And>x s s'. x \<in> set xs \<Longrightarrow> I s \<Longrightarrow> body x s = Inr s' \<Longrightarrow> I s'"
  shows "I s'"
  using assms
proof (induction xs arbitrary: s)
  case Nil
  then show ?case by simp
next
  case (Cons x xs)
  from Cons.prems(1) obtain s1 where s1: "body x s = Inr s1" "for_each xs body s1 = Inr s'"
    by (auto simp: bind_eq_Inr)
  have "I s1"
    using Cons.prems(3) [of x s s1] Cons.prems(2) s1(1) by simp
  then show ?case
    by (rule Cons.IH [OF s1(2)]) (use Cons.prems(3) in auto)
qed

lemma int_less_uint: "k < unat w \<Longrightarrow> int k < uint w"
  by (simp only: uint_nat of_nat_less_iff)

lemma for_each_total:
  assumes "I s"
    and "\<And>x s. x \<in> set xs \<Longrightarrow> I s \<Longrightarrow> \<exists>s'. body x s = Inr s' \<and> I s'"
  shows "\<exists>s'. for_each xs body s = Inr s' \<and> I s'"
  using assms
proof (induction xs arbitrary: s)
  case Nil
  then show ?case by simp
next
  case (Cons x xs)
  from Cons.prems(2) [of x s] Cons.prems(1) obtain s1 where s1: "body x s = Inr s1" "I s1"
    by auto
  show ?case
    using Cons.IH [OF s1(2)] Cons.prems(2) s1(1) by simp
qed

lemma store_frame:
  assumes "store a i v = Inr a'" and "int off \<noteq> i"
  shows "a' ! off = a ! off"
  using assms by (auto simp: store_def split: if_splits)

lemma store_length:
  assumes "store a i v = Inr a'"
  shows "length a' = length a"
  using assms by (auto simp: store_def split: if_splits)

text \<open>The offsets written by the loops over \<open>j\<close> and \<open>k\<close> for part \<open>i\<close>.\<close>

lemma barOffset_bounds:
  assumes "j < 12" and "k < unat tp" and "i < 9" and "0 \<le> fpo"
  shows "fpo + 3 \<le> barOffset fpo tp i j k + 1"
    and "barOffset fpo tp i j k + 1 \<le> fpo + 128 * uint tp - 2"
proof -
  have k: "int k + 1 \<le> uint tp"
    using int_less_uint [OF assms(2)] by simp
  show "fpo + 3 \<le> barOffset fpo tp i j k + 1"
    using k assms by (simp add: barOffset_def)
  show "barOffset fpo tp i j k + 1 \<le> fpo + 128 * uint tp - 2"
    using k assms by (simp add: barOffset_def)
qed

lemma drawBar_frame:
  assumes run: "drawBar fpo tp i pv fb = Inr fb'"
    and i: "i < 9" and fpo: "0 \<le> fpo"
    and off: "int off < fpo + 3 \<or> fpo + 128 * uint tp - 2 < int off"
  shows "fb' ! off = fb ! off \<and> length fb' = length fb"
proof -
  let ?I = "\<lambda>a. a ! off = fb ! off \<and> length a = length fb"
  have inner: "?I a'"
    if "for_each [0..<unat tp] (\<lambda>k fb. bind (load pv (int k)) (\<lambda>v.
          store fb (barOffset fpo tp i j k + 1) v)) a = Inr a'" and "?I a" and "j < 12"
    for j a a'
  proof (rule for_each_invariant [OF that(1), where I = ?I])
    show "?I a" by fact
  next
    fix k b b'
    assume k: "k \<in> set [0..<unat tp]" and b: "?I b"
      and step: "bind (load pv (int k)) (\<lambda>v. store b (barOffset fpo tp i j k + 1) v) = Inr b'"
    from step obtain v where st: "store b (barOffset fpo tp i j k + 1) v = Inr b'"
      by (auto simp: bind_eq_Inr)
    have "int off \<noteq> barOffset fpo tp i j k + 1"
      using barOffset_bounds [OF that(3) _ i fpo, of k tp] k off by auto
    then show "?I b'"
      using store_frame [OF st] store_length [OF st] b by simp
  qed
  show ?thesis
  proof (rule for_each_invariant [OF run [unfolded drawBar_def], where I = ?I])
    show "?I fb" by simp
  next
    fix j a a'
    assume "j \<in> set [0..<nat 12]" and "?I a"
      and "for_each [0..<unat tp] (\<lambda>k fb. bind (load pv (int k)) (\<lambda>v.
          store fb (barOffset fpo tp i j k + 1) v)) a = Inr a'"
    then show "?I a'"
      using inner [of j a a'] by simp
  qed
qed

lemma drawBar_total:
  fixes pv fb :: "u8 list"
  assumes i: "i < 9" and fpo: "0 \<le> fpo"
    and pv: "length pv = unat tp"
    and fb: "fpo + 128 * uint tp - 2 < int (length fb)"
  shows "\<exists>fb'. drawBar fpo tp i pv fb = Inr fb' \<and> length fb' = length fb"
proof -
  let ?I = "\<lambda>a :: u8 list. length a = length fb"
  have inner: "\<exists>a'. for_each [0..<unat tp] (\<lambda>k fb. bind (load pv (int k)) (\<lambda>v.
          store fb (barOffset fpo tp i j k + 1) v)) a = Inr a' \<and> ?I a'"
    if "?I a" and "j < 12" for j a
  proof (rule for_each_total [where I = ?I])
    show "?I a" by fact
  next
    fix k b
    assume k: "k \<in> set [0..<unat tp]" and b: "?I b"
    then have "load pv (int k) = Inr (pv ! k)"
      using pv int_less_uint [of k tp] by (simp add: load_def)
    moreover have "0 \<le> barOffset fpo tp i j k + 1"
      "barOffset fpo tp i j k + 1 < int (length b)"
      using barOffset_bounds [OF that(2) _ i fpo, of k tp] k fb b fpo by auto
    ultimately show "\<exists>b'. bind (load pv (int k)) (\<lambda>v. store b (barOffset fpo tp i j k + 1) v) = Inr b'
        \<and> ?I b'"
      using b by (simp add: store_def)
  qed
  show ?thesis
    unfolding drawBar_def
  proof (rule for_each_total [where I = ?I])
    show "?I fb" by simp
  next
    fix j a
    assume "j \<in> set [0..<nat 12]" and "?I a"
    then show "\<exists>a'. for_each [0..<unat tp] (\<lambda>k fb. bind (load pv (int k)) (\<lambda>v.
          store fb (barOffset fpo tp i j k + 1) v)) a = Inr a' \<and> ?I a'"
      using inner [of a j] by simp
  qed
qed


lemma peakMarker_total:
  assumes h: "m_nHeight s = 32 \<or> m_nHeight s = 64"
    and len: "length pv = unat (totalPages s)"
    and p: "p \<le> barHeight s"
  shows "\<exists>pv'. peakMarker bDrawPeaks p pv = Inr pv' \<and> length pv' = length pv"
proof (cases "bDrawPeaks \<and> p \<noteq> 0")
  case False
  then show ?thesis
    by (auto simp: peakMarker_def)
next
  case True
  then have drawn: "bDrawPeaks" "p \<noteq> 0"
    by simp_all
  show ?thesis
    using peakMarker_result(2,4) [OF h len p drawn] by (cases "p mod 8 = 0") simp_all
qed

lemma drawPart_frame:
  assumes run: "drawPart d junk s fpo tp bh bDrawPeaks i fb = Inr fb'"
    and i: "i < 9" and fpo: "0 \<le> fpo"
    and off: "int off < fpo + 3 \<or> fpo + 128 * uint tp - 2 < int off"
  shows "fb' ! off = fb ! off \<and> length fb' = length fb"
proof -
  from run obtain pv where "drawBar fpo tp i pv fb = Inr fb'"
    by (auto simp: drawPart_def Let_def bind_eq_Inr)
  then show ?thesis
    using i fpo off by (rule drawBar_frame)
qed

lemma drawPart_total:
  fixes fb :: "u8 list"
  assumes h: "m_nHeight s = 32 \<or> m_nHeight s = 64"
    and part: "scale d (m_PartLevels s i) (barHeight s) \<le> barHeight s"
    and peak: "scale d (m_PeakLevels s i) (barHeight s) \<le> barHeight s"
    and i: "i < 9" and fpo: "0 \<le> fpo"
    and fb: "fpo + 128 * uint (totalPages s) - 2 < int (length fb)"
  shows "\<exists>fb'. drawPart d junk s fpo (totalPages s) (barHeight s) bDrawPeaks i fb = Inr fb'
           \<and> length fb' = length fb"
proof -
  let ?tp = "totalPages s"
  have len0: "length (map (junk i) [0..<unat ?tp]) = unat ?tp"
    by simp
  obtain pv1 where pv1:
    "fillPageValues ?tp (scale d (m_PartLevels s i) (barHeight s)) (map (junk i) [0..<unat ?tp])
       = Inr pv1" "length pv1 = unat ?tp"
    using fillPageValues_result [OF h len0 part] by simp
  obtain pv2 where pv2:
    "peakMarker bDrawPeaks (scale d (m_PeakLevels s i) (barHeight s)) pv1 = Inr pv2"
    "length pv2 = unat ?tp"
    using peakMarker_total [OF h pv1(2) peak, of bDrawPeaks] pv1(2) by auto
  show ?thesis
    using drawBar_total [OF i fpo pv2(2) fb] pv1(1) pv2(1)
    by (simp add: drawPart_def Let_def)
qed

lemma DrawPartLevels_frame:
  assumes run: "DrawPartLevels d junk nFirstRow bDrawPeaks s = Inr s'"
    and off: "int off < uint nFirstRow * 128 + 3
        \<or> uint nFirstRow * 128 + 128 * uint (totalPages s) - 2 < int off"
  shows "m_Framebuffer s' ! off = m_Framebuffer s ! off"
    and "length (m_Framebuffer s') = length (m_Framebuffer s)"
    and "s' = s\<lparr>m_Framebuffer := m_Framebuffer s'\<rparr>"
proof -
  let ?fpo = "uint nFirstRow * 128"
  let ?I = "\<lambda>a :: u8 list. a ! off = m_Framebuffer s ! off \<and> length a = length (m_Framebuffer s)"
  from run obtain fb' where
    loop: "for_each [0..<9] (drawPart d junk s ?fpo (totalPages s) (barHeight s) bDrawPeaks)
             (m_Framebuffer s) = Inr fb'"
    and s': "s' = s\<lparr>m_Framebuffer := fb'\<rparr>"
    by (auto simp: DrawPartLevels_def Let_def bind_eq_Inr)
  have "?I fb'"
  proof (rule for_each_invariant [OF loop, where I = ?I])
    show "?I (m_Framebuffer s)" by simp
  next
    fix i a a'
    assume "i \<in> set [0..<9]" and a: "?I a"
      and "drawPart d junk s ?fpo (totalPages s) (barHeight s) bDrawPeaks i a = Inr a'"
    then show "?I a'"
      using drawPart_frame [of d junk s ?fpo "totalPages s" "barHeight s" bDrawPeaks i a a' off] off
      by simp
  qed
  then show "m_Framebuffer s' ! off = m_Framebuffer s ! off"
    and "length (m_Framebuffer s') = length (m_Framebuffer s)"
    and "s' = s\<lparr>m_Framebuffer := m_Framebuffer s'\<rparr>"
    using s' by simp_all
qed

lemma DrawPartLevels_total:
  assumes h: "m_nHeight s = 32 \<or> m_nHeight s = 64"
    and levels: "\<And>i. i < 9 \<Longrightarrow> scale d (m_PartLevels s i) (barHeight s) \<le> barHeight s
        \<and> scale d (m_PeakLevels s i) (barHeight s) \<le> barHeight s"
    and fb: "uint nFirstRow * 128 + 128 * uint (totalPages s) - 2 < int (length (m_Framebuffer s))"
  shows "\<exists>s'. DrawPartLevels d junk nFirstRow bDrawPeaks s = Inr s'"
proof -
  let ?fpo = "uint nFirstRow * 128"
  let ?I = "\<lambda>a :: u8 list. length a = length (m_Framebuffer s)"
  have "\<exists>fb'. for_each [0..<9] (drawPart d junk s ?fpo (totalPages s) (barHeight s) bDrawPeaks)
             (m_Framebuffer s) = Inr fb' \<and> ?I fb'"
  proof (rule for_each_total [where I = ?I])
    show "?I (m_Framebuffer s)" by simp
  next
    fix i and a :: "u8 list"
    assume i: "i \<in> set [0..<9]" and a: "?I a"
    then show "\<exists>a'. drawPart d junk s ?fpo (totalPages s) (barHeight s) bDrawPeaks i a = Inr a'
        \<and> ?I a'"
      using drawPart_total [OF h, of d i ?fpo a junk bDrawPeaks] levels [of i] fb by simp
  qed
  then show ?thesis
    by (auto simp: DrawPartLevels_def Let_def)
qed


lemma example_levels:
  "scale example_decls (m_PartLevels (example_lcd h) i) 48 = 24"
  "scale example_decls (m_PeakLevels (example_lcd h) i) 48 = 36"
  "scale example_decls (m_PartLevels (example_lcd h) i) 16 = 8"
  "scale example_decls (m_PeakLevels (example_lcd h) i) 16 = 12"
  by (simp_all add: example_decls_def example_lcd_def)

lemma example_geometry:
  "totalPages (example_lcd 64) = 6" "barHeight (example_lcd 64) = 48"
  "totalPages (example_lcd 32) = 2" "barHeight (example_lcd 32) = 16"
  "m_nHeight (example_lcd h) = h" "length (m_Framebuffer (example_lcd h)) = 1025"
  by (simp_all add: totalPages_def barHeight_def example_lcd_def)

lemma example_DrawPartLevels:
  "\<exists>s'. DrawPartLevels example_decls junk 0 bDrawPeaks (example_lcd 64) = Inr s'"
  by (rule DrawPartLevels_total) (simp_all add: example_geometry example_levels)

text \<open>
  C6, as amended. The rasterizer uses \<open>totalPages = height / 8 - 2\<close> pages and
  \<open>barHeight = height - 16\<close> pixels. Called with first row 0 on a display of height 32 or
  64 it changes only bytes of the pages \<open>0\<close> to \<open>totalPages - 1\<close>, the top pages of the
  display (the byte of page \<open>p\<close> and column \<open>c\<close> is at offset \<open>1 + 128 * p + c\<close>): the two
  page rows it leaves unwritten are the last two, below the bars, and they are the rows
  where \<open>Update\<close> prints the status line.
\<close>

theorem DrawPartLevels_reserved_rows:
  assumes "m_nHeight s = 32 \<or> m_nHeight s = 64"
    and "DrawPartLevels d junk 0 bDrawPeaks s = Inr s'"
  shows "uint (totalPages s) = uint (m_nHeight s) div 8 - 2
       \<and> uint (barHeight s) = uint (m_nHeight s) - 16
       \<and> (\<forall>page column. unat (totalPages s) \<le> page \<longrightarrow> column < 128 \<longrightarrow>
             m_Framebuffer s' ! (1 + 128 * page + column)
               = m_Framebuffer s ! (1 + 128 * page + column))
       \<and> (\<forall>off. m_Framebuffer s' ! off \<noteq> m_Framebuffer s ! off \<longrightarrow>
             1 \<le> off \<and> (off - 1) div 128 < unat (totalPages s))
       \<and> length (m_Framebuffer s') = length (m_Framebuffer s)
       \<and> uint (if m_nHeight s = 32 then 1 else 3 :: u8) * 128 * 2 = 128 * uint (totalPages s)"
proof -
  have geometry: "uint (totalPages s) = uint (m_nHeight s) div 8 - 2"
    "uint (barHeight s) = uint (m_nHeight s) - 16"
    "uint (if m_nHeight s = 32 then 1 else 3 :: u8) * 128 * 2 = 128 * uint (totalPages s)"
    using assms(1) by (auto simp: totalPages_def barHeight_def)
  have tp: "uint (totalPages s) = int (unat (totalPages s))"
    by (rule uint_nat)
  have frame: "m_Framebuffer s' ! off = m_Framebuffer s ! off"
    if "off < 3 \<or> 128 * unat (totalPages s) - 2 < off" for off
  proof (rule DrawPartLevels_frame(1) [OF assms(2)])
    have "0 < unat (totalPages s)"
      using supported_height(2) [OF assms(1)] .
    then have "int off < 3 \<or> 128 * uint (totalPages s) - 2 < int off"
      using that unfolding tp by arith
    then show "int off < uint 0 * 128 + 3 \<or> uint 0 * 128 + 128 * uint (totalPages s) - 2 < int off"
      by simp
  qed
  have below: "m_Framebuffer s' ! (1 + 128 * page + column) = m_Framebuffer s ! (1 + 128 * page + column)"
    if "unat (totalPages s) \<le> page" for page column
    using that by (intro frame) auto
  have changed: "1 \<le> off \<and> (off - 1) div 128 < unat (totalPages s)"
    if "m_Framebuffer s' ! off \<noteq> m_Framebuffer s ! off" for off
  proof -
    have "\<not> (off < 3 \<or> 128 * unat (totalPages s) - 2 < off)"
      using frame [of off] that by blast
    then show ?thesis
      by auto
  qed
  have len: "length (m_Framebuffer s') = length (m_Framebuffer s)"
    using DrawPartLevels_frame(2) [OF assms(2), of 0] by simp
  show ?thesis
    using geometry below changed len by blast
qed

theorem DrawPartLevels_reserved_rows_witness:
  "m_nHeight (example_lcd 64) = 64
   \<and> unat (totalPages (example_lcd 64)) = 6
   \<and> map_sum id (\<lambda>s'. m_Framebuffer s' ! (1 + 128 * 6 + 5))
        (DrawPartLevels example_decls (\<lambda>i j. 0) 0 True (example_lcd 64))
       = Inr (m_Framebuffer (example_lcd 64) ! (1 + 128 * 6 + 5))"
proof -
  have h: "m_nHeight (example_lcd 64) = 32 \<or> m_nHeight (example_lcd 64) = 64"
    by (simp add: example_geometry)
  obtain s' where run: "DrawPartLevels example_decls (\<lambda>i j. 0) 0 True (example_lcd 64) = Inr s'"
    using example_DrawPartLevels by blast
  have "\<forall>page column. 6 \<le> page \<longrightarrow> column < 128 \<longrightarrow>
      m_Framebuffer s' ! (1 + 128 * page + column)
        = m_Framebuffer (example_lcd 64) ! (1 + 128 * page + column)"
    using DrawPartLevels_reserved_rows [OF h run] by (simp add: example_geometry)
  from this [rule_format, of 6 5]
  have "m_Framebuffer s' ! (1 + 128 * 6 + 5) = m_Framebuffer (example_lcd 64) ! (1 + 128 * 6 + 5)"
    by simp
  then show ?thesis
    using run by (simp add: example_geometry)
qed

text \<open>
  C6 as stated fails: the top two pages are not left to other content. With every level
  at 1 on a 32-pixel display, the byte of page 0 and column 2 (offset 3) goes from 0 to
  \<open>0xFF\<close>.
\<close>

theorem DrawPartLevels_writes_top_page:
  "m_nHeight (full_lcd 32) = 32
   \<and> m_Framebuffer (full_lcd 32) ! 3 = 0
   \<and> map_sum id (\<lambda>s'. m_Framebuffer s' ! 3)
        (DrawPartLevels example_decls (\<lambda>i j. 0) 0 True (full_lcd 32)) = Inr 0xFF"
  by code_simp

subsection \<open>Glyphs, text and the control byte\<close>

lemma DrawChar_column_frame:
  assumes run: "DrawChar_column font ch row col bInv dw i fb = Inr fb'"
    and off: "int off < row + col"
  shows "fb' ! off = fb ! off \<and> length fb' = length fb"
proof -
  let ?o = "row + col + (if dw then int i * 2 else int i)"
  have lt: "int off \<noteq> ?o" "int off \<noteq> ?o + 128" "int off \<noteq> ?o + 1" "int off \<noteq> ?o + 128 + 1"
    using off by auto
  from run obtain v1 v2 fb1 fb2 where
    st1: "store fb ?o v1 = Inr fb1" and st2: "store fb1 (?o + 128) v2 = Inr fb2"
    and rest: "(if dw then bind (load fb2 ?o) (\<lambda>v. bind (store fb2 (?o + 1) v) (\<lambda>fb.
                 bind (load fb (?o + 128)) (\<lambda>v. store fb (?o + 128 + 1) v)))
               else Inr fb2) = Inr fb'"
    by (auto simp: DrawChar_column_def Let_def bind_eq_Inr)
  have fb2: "fb2 ! off = fb ! off \<and> length fb2 = length fb"
    using store_frame [OF st1 lt(1)] store_frame [OF st2 lt(2)]
      store_length [OF st1] store_length [OF st2] by simp
  show ?thesis
  proof (cases dw)
    case False
    then show ?thesis using rest fb2 by simp
  next
    case True
    with rest obtain v3 v4 fb3 where
      st3: "store fb2 (?o + 1) v3 = Inr fb3" and st4: "store fb3 (?o + 128 + 1) v4 = Inr fb'"
      by (auto simp: bind_eq_Inr)
    show ?thesis
      using store_frame [OF st3 lt(3)] store_frame [OF st4 lt(4)]
        store_length [OF st3] store_length [OF st4] fb2 by simp
  qed
qed

lemma DrawChar_frame:
  assumes run: "DrawChar d chChar nCursorX nCursorY bInverted bDoubleWidth s = Inr s'"
    and off: "int off < uint nCursorY * 128 * 2 + (uint nCursorX * (if bDoubleWidth then 12 else 6) + 5)"
  shows "m_Framebuffer s' ! off = m_Framebuffer s ! off"
    and "length (m_Framebuffer s') = length (m_Framebuffer s)"
    and "s' = s\<lparr>m_Framebuffer := m_Framebuffer s'\<rparr>"
proof -
  let ?row = "uint nCursorY * 128 * 2"
  let ?col = "uint nCursorX * (if bDoubleWidth then 12 else 6) + 5"
  let ?ch = "if (of_char chChar :: u8) = 0xFF then 0x80 else of_char chChar :: u8"
  let ?I = "\<lambda>a :: u8 list. a ! off = m_Framebuffer s ! off \<and> length a = length (m_Framebuffer s)"
  from run obtain fb' where
    loop: "for_each [0..<6]
             (DrawChar_column (FontDouble (Font6x8 d)) ?ch ?row ?col bInverted bDoubleWidth)
             (m_Framebuffer s) = Inr fb'"
    and s': "s' = s\<lparr>m_Framebuffer := fb'\<rparr>"
    by (auto simp: DrawChar_def Let_def bind_eq_Inr)
  have "?I fb'"
  proof (rule for_each_invariant [OF loop, where I = ?I])
    show "?I (m_Framebuffer s)" by simp
  next
    fix i a a'
    assume "i \<in> set [0..<6]" and a: "?I a"
      and "DrawChar_column (FontDouble (Font6x8 d)) ?ch ?row ?col bInverted bDoubleWidth i a = Inr a'"
    then show "?I a'"
      using DrawChar_column_frame [of _ _ ?row ?col _ _ i a a' off] off by simp
  qed
  then show "m_Framebuffer s' ! off = m_Framebuffer s ! off"
    and "length (m_Framebuffer s') = length (m_Framebuffer s)"
    and "s' = s\<lparr>m_Framebuffer := m_Framebuffer s'\<rparr>"
    using s' by simp_all
qed

lemma DrawChar_column_total:
  fixes fb :: "u8 list"
  assumes g: "unat (ch - 0x20) < length font6x8"
    and i: "i < 6"
    and lo: "0 \<le> row + col"
    and hi: "row + col + (if dw then 11 else 5) + 128 < int (length fb)"
  shows "\<exists>fb'. DrawChar_column (FontDouble font6x8) ch row col bInv dw i fb = Inr fb'
           \<and> length fb' = length fb"
proof -
  have len: "length (FontDouble font6x8) = length font6x8"
    "length (FontDouble font6x8 ! unat (ch - 0x20)) = 6"
    using g by (simp_all add: FontDouble_def Font_def)
  have idx: "uint (ch - 0x20) < int (length font6x8)"
    using g by (rule uint_less_int)
  show ?thesis
    using lo hi i idx
    by (cases dw) (simp_all add: DrawChar_column_def len Let_def store_def load_def)
qed

lemma DrawChar_total:
  assumes g: "unat ((if (of_char chChar :: u8) = 0xFF then 0x80 else of_char chChar :: u8) - 0x20)
        < length (Font6x8 d)"
    and hi: "uint nCursorY * 256 + uint nCursorX * (if bDoubleWidth then 12 else 6)
        + (if bDoubleWidth then 11 else 5) + 133 < int (length (m_Framebuffer s))"
  shows "\<exists>s'. DrawChar d chChar nCursorX nCursorY bInverted bDoubleWidth s = Inr s'"
proof -
  let ?row = "uint nCursorY * 128 * 2"
  let ?col = "uint nCursorX * (if bDoubleWidth then 12 else 6) + 5"
  let ?ch = "if (of_char chChar :: u8) = 0xFF then 0x80 else of_char chChar :: u8"
  let ?I = "\<lambda>a :: u8 list. length a = length (m_Framebuffer s)"
  have "\<exists>fb'. for_each [0..<6]
             (DrawChar_column (FontDouble (Font6x8 d)) ?ch ?row ?col bInverted bDoubleWidth)
             (m_Framebuffer s) = Inr fb' \<and> ?I fb'"
  proof (rule for_each_total [where I = ?I])
    show "?I (m_Framebuffer s)" by simp
  next
    fix i and a :: "u8 list"
    assume i: "i \<in> set [0..<6]" and a: "?I a"
    have "\<exists>a'. DrawChar_column (FontDouble (Font6x8 d)) ?ch ?row ?col bInverted bDoubleWidth i a = Inr a'
        \<and> length a' = length a"
      using g i hi a by (intro DrawChar_column_total) (auto split: if_splits)
    then show "\<exists>a'. DrawChar_column (FontDouble (Font6x8 d)) ?ch ?row ?col bInverted bDoubleWidth i a = Inr a'
        \<and> ?I a'"
      using a by auto
  qed
  then show ?thesis
    by (auto simp: DrawChar_def Let_def)
qed


lemma bind_assoc: "bind (bind m f) g = bind m (\<lambda>x. bind (f x) g)"
  by (cases m) simp_all

lemma Print_text_eq:
  "Print_text d pText x y s =
     bind (for_each (zip pText [unat x..<20])
             (\<lambda>(c, column). DrawChar d c (of_nat column) y
                (default_bInverted d) (default_bDoubleWidth d)) s)
       (\<lambda>s'. Inr (of_nat (unat x + length (zip pText [unat x..<20])), s'))"
proof (induction pText arbitrary: x s)
  case Nil
  have "(of_nat (unat x) :: u8) = x"
    by simp
  then show ?case by simp
next
  case (Cons c cs)
  show ?case
  proof (cases "x < 20")
    case False
    then have "[unat x..<20] = []"
      by (simp add: word_less_nat_alt)
    then show ?thesis
      using False by simp
  next
    case True
    then have lt: "unat x < 20"
      by (simp add: word_less_nat_alt)
    then have suc: "unat (x + 1) = Suc (unat x)"
      by (simp add: unat_word_ariths)
    have upt: "[unat x..<20] = unat x # [Suc (unat x)..<20]"
      using lt by (simp add: upt_conv_Cons)
    have IH: "Print_text d cs (x + 1) y =
        (\<lambda>s. bind (for_each (zip cs [Suc (unat x)..<20])
             (\<lambda>(c, column). DrawChar d c (of_nat column) y
                (default_bInverted d) (default_bDoubleWidth d)) s)
          (\<lambda>s'. Inr (of_nat (Suc (unat x) + length (zip cs [Suc (unat x)..<20])), s')))"
      by (rule ext) (simp only: Cons.IH suc)
    show ?thesis
      using True by (simp add: upt IH bind_assoc)
  qed
qed

lemma Print_clear_eq:
  "Print_clear d x y s =
     for_each [unat x..<20]
       (\<lambda>column. DrawChar d (CHR '' '') (of_nat column) y
          (default_bInverted d) (default_bDoubleWidth d)) s"
proof (induction d x y s rule: Print_clear.induct)
  case (1 d x y s)
  show ?case
  proof (cases "x < 20")
    case False
    then have "[unat x..<20] = []"
      by (simp add: word_less_nat_alt)
    then show ?thesis
      using False by (simp add: Print_clear.simps [of d x])
  next
    case True
    then have lt: "unat x < 20"
      by (simp add: word_less_nat_alt)
    then have suc: "unat (x + 1) = Suc (unat x)"
      by (simp add: unat_word_ariths)
    have upt: "[unat x..<20] = unat x # [Suc (unat x)..<20]"
      using lt by (simp add: upt_conv_Cons)
    show ?thesis
      using True "1.IH" [OF True]
      by (subst Print_clear.simps) (auto simp: upt suc bind_def split: sum.splits)
  qed
qed

lemma Print_eq_Print_spec:
  "Print d text x y clearLine immediate s = Print_spec d text x y clearLine immediate s"
proof -
  let ?n = "unat x + length (zip text [unat x..<20])"
  have "?n \<le> 20 \<or> ?n = unat x"
    by (cases "unat x < 20") auto
  then have "?n < 256"
    using unsigned_less [of x, where 'a = nat] by auto
  moreover have "unat (of_nat n :: u8) = n" if "n < 256" for n
    using that by (simp add: unat_of_nat take_bit_nat_eq_self)
  ultimately have cursor: "unat (of_nat ?n :: u8) = ?n"
    by blast
  have pad: "Print_clear d (of_nat ?n) y =
      for_each [?n..<20] (\<lambda>column. DrawChar d (CHR '' '') (of_nat column) y
          (default_bInverted d) (default_bDoubleWidth d))"
    by (rule ext) (simp only: Print_clear_eq cursor)
  show ?thesis
    by (cases clearLine)
      (simp_all only: Print_def Print_spec_def Print_text_eq bind_assoc Let_def bind_Inr
        prod.case pad if_True if_False)
qed


lemma same_but_pixels_refl: "same_but_pixels s s"
  by (simp add: same_but_pixels_def)

lemma same_but_pixels_trans:
  "same_but_pixels s t \<Longrightarrow> same_but_pixels t u \<Longrightarrow> same_but_pixels s u"
  unfolding same_but_pixels_def by (cases s, cases t, cases u) auto

lemma same_but_pixels_fields:
  assumes "same_but_pixels s t"
  shows "m_pI2CMaster t = m_pI2CMaster s" "m_nAddress t = m_nAddress s" "m_nHeight t = m_nHeight s"
    "m_PartLevels t = m_PartLevels s" "m_PeakLevels t = m_PeakLevels s"
    "m_TextBuffer t = m_TextBuffer s" "m_Rotation t = m_Rotation s"
    "length (m_Framebuffer t) = length (m_Framebuffer s)"
    "m_Framebuffer t ! 0 = m_Framebuffer s ! 0"
  using assms unfolding same_but_pixels_def by (cases s, cases t, auto)+

lemma DrawChar_same_but_pixels:
  assumes "DrawChar d chChar nCursorX nCursorY bInverted bDoubleWidth s = Inr s'"
  shows "same_but_pixels s s'"
proof -
  have "0 < uint nCursorY * 128 * 2 + (uint nCursorX * (if bDoubleWidth then 12 else 6) + 5)"
    by (intro add_nonneg_pos mult_nonneg_nonneg) simp_all
  then have "int 0 < uint nCursorY * 128 * 2 + (uint nCursorX * (if bDoubleWidth then 12 else 6) + 5)"
    by simp
  from DrawChar_frame [OF assms this] show ?thesis
    by (simp add: same_but_pixels_def)
qed

lemma DrawPartLevels_same_but_pixels:
  assumes "DrawPartLevels d junk nFirstRow bDrawPeaks s = Inr s'"
  shows "same_but_pixels s s'"
proof -
  have "0 < uint nFirstRow * 128 + 3"
    by (intro add_nonneg_pos mult_nonneg_nonneg) simp_all
  then have "int 0 < uint nFirstRow * 128 + 3"
    by simp
  then have "int 0 < uint nFirstRow * 128 + 3
      \<or> uint nFirstRow * 128 + 128 * uint (totalPages s) - 2 < int 0"
    by (rule disjI1)
  from DrawPartLevels_frame [OF assms this] show ?thesis
    by (simp add: same_but_pixels_def)
qed

lemma for_each_same_but_pixels:
  assumes "for_each xs body s = Inr s'"
    and "\<And>x t t'. x \<in> set xs \<Longrightarrow> body x t = Inr t' \<Longrightarrow> same_but_pixels t t'"
  shows "same_but_pixels s s'"
proof (rule for_each_invariant [OF assms(1), where I = "same_but_pixels s"])
  show "same_but_pixels s s"
    by (rule same_but_pixels_refl)
next
  fix x t t'
  assume "x \<in> set xs" "same_but_pixels s t" "body x t = Inr t'"
  then show "same_but_pixels s t'"
    using assms(2) same_but_pixels_trans by blast
qed

lemma WriteFramebuffer_Inr:
  assumes "WriteFramebuffer t = Inr t'"
  shows "\<exists>w. m_pI2CMaster t = Some w
    \<and> t' = t\<lparr>m_pI2CMaster := Some (w @ [(m_nAddress t,
               take (nat (uint (m_nHeight t) * 16 + 1)) (m_Framebuffer t))])\<rparr>"
  using assms
  by (auto simp: WriteFramebuffer_def I2C_Write_def Let_def split: if_splits option.splits)

lemma Print_spec_Inr:
  assumes "Print_spec d pText x y clearLine immediate s = Inr s'"
  shows "\<exists>t. same_but_pixels s t \<and> (if immediate then WriteFramebuffer t = Inr s' else s' = t)"
proof -
  let ?blit = "\<lambda>(c, column). DrawChar d c (of_nat column) y
                    (default_bInverted d) (default_bDoubleWidth d)"
  let ?pad = "\<lambda>column. DrawChar d (CHR '' '') (of_nat column) y
                   (default_bInverted d) (default_bDoubleWidth d)"
  let ?n = "unat x + length (zip pText [unat x..<20])"
  from assms [unfolded Print_spec_def Let_def bind_eq_Inr] obtain s1 s2 where
    blit: "for_each (zip pText [unat x..<20]) ?blit s = Inr s1"
    and pad: "(if clearLine then for_each [?n..<20] ?pad s1 else Inr s1) = Inr s2"
    and flush: "(if immediate then WriteFramebuffer s2 else Inr s2) = Inr s'"
    by blast
  have 1: "same_but_pixels s s1"
    using blit by (rule for_each_same_but_pixels) (auto dest: DrawChar_same_but_pixels)
  have 2: "same_but_pixels s1 s2"
  proof (cases clearLine)
    case True
    with pad have "for_each [?n..<20] ?pad s1 = Inr s2"
      by simp
    then show ?thesis
      by (rule for_each_same_but_pixels) (auto dest: DrawChar_same_but_pixels)
  next
    case False
    with pad show ?thesis
      by (simp add: same_but_pixels_refl)
  qed
  show ?thesis
    using same_but_pixels_trans [OF 1 2] flush by (auto split: if_splits)
qed

lemma Print_spec_total:
  assumes font: "\<forall>c \<in> set pText \<union> {CHR '' ''}. glyph_index c < length (Font6x8 d)"
    and fb: "uint y * 256 + 20 * (if default_bDoubleWidth d then 12 else 6) + 132
        < int (length (m_Framebuffer s))"
    and flush: "immediate \<Longrightarrow> m_pI2CMaster s \<noteq> None
        \<and> uint (m_nHeight s) * 16 + 1 \<le> int (length (m_Framebuffer s))"
  shows "\<exists>s'. Print_spec d pText x y clearLine immediate s = Inr s'"
proof -
  let ?blit = "\<lambda>(c, column). DrawChar d c (of_nat column) y
                    (default_bInverted d) (default_bDoubleWidth d)"
  let ?pad = "\<lambda>column. DrawChar d (CHR '' '') (of_nat column) y
                   (default_bInverted d) (default_bDoubleWidth d)"
  let ?n = "unat x + length (zip pText [unat x..<20])"
  have cell: "\<exists>t'. DrawChar d c (of_nat column) y (default_bInverted d) (default_bDoubleWidth d) t
        = Inr t' \<and> same_but_pixels s t'"
    if "same_but_pixels s t" and "glyph_index c < length (Font6x8 d)" and "column < 20"
    for c column t
  proof -
    have col: "uint (of_nat column :: u8) = int column"
      using that(3) by (simp add: uint_nat unat_of_nat take_bit_nat_eq_self del: of_nat_unat)
    have "\<exists>t'. DrawChar d c (of_nat column) y (default_bInverted d) (default_bDoubleWidth d) t
        = Inr t'"
      using that fb same_but_pixels_fields(8) [OF that(1)]
      by (intro DrawChar_total) (auto simp: glyph_index_def col split: if_splits)
    then show ?thesis
      using that(1) same_but_pixels_trans DrawChar_same_but_pixels by blast
  qed
  have "\<exists>s1. for_each (zip pText [unat x..<20]) ?blit s = Inr s1 \<and> same_but_pixels s s1"
  proof (rule for_each_total [where I = "same_but_pixels s"])
    show "same_but_pixels s s"
      by (rule same_but_pixels_refl)
  next
    fix p t
    assume p: "p \<in> set (zip pText [unat x..<20])" and t: "same_but_pixels s t"
    obtain c column where pc: "p = (c, column)"
      by (cases p)
    have "c \<in> set pText" "column < 20"
      using p set_zip_leftD [of c column pText] set_zip_rightD [of c column pText "[unat x..<20]"]
      unfolding pc by auto
    then show "\<exists>t'. ?blit p t = Inr t' \<and> same_but_pixels s t'"
      using cell [OF t, of c column] font unfolding pc by simp
  qed
  then obtain s1 where s1: "for_each (zip pText [unat x..<20]) ?blit s = Inr s1"
    "same_but_pixels s s1"
    by blast
  have "\<exists>s2. (if clearLine then for_each [?n..<20] ?pad s1 else Inr s1) = Inr s2
      \<and> same_but_pixels s s2"
  proof (cases clearLine)
    case False
    then show ?thesis
      using s1(2) by simp
  next
    case True
    have "\<exists>s2. for_each [?n..<20] ?pad s1 = Inr s2 \<and> same_but_pixels s s2"
    proof (rule for_each_total [where I = "same_but_pixels s"])
      show "same_but_pixels s s1"
        by (rule s1(2))
    next
      fix column t
      assume "column \<in> set [?n..<20]" and t: "same_but_pixels s t"
      then have "column < 20"
        by simp
      then show "\<exists>t'. ?pad column t = Inr t' \<and> same_but_pixels s t'"
        using cell [OF t, of "CHR '' ''" column] font by simp
    qed
    then show ?thesis
      using True by simp
  qed
  then obtain s2 where s2: "(if clearLine then for_each [?n..<20] ?pad s1 else Inr s1) = Inr s2"
    "same_but_pixels s s2"
    by blast
  have "\<exists>s'. (if immediate then WriteFramebuffer s2 else Inr s2) = Inr s'"
    using flush same_but_pixels_fields [OF s2(2)]
    by (auto simp: WriteFramebuffer_def I2C_Write_def Let_def)
  then show ?thesis
    unfolding Print_spec_def Let_def bind_eq_Inr using s1(1) s2(1) by blast
qed


lemma Print_bus:
  assumes "Print_spec d pText x y clearLine immediate s = Inr s'"
  shows "m_pI2CMaster s' =
      (if immediate
       then map_option (\<lambda>written. written @ [(m_nAddress s,
              take (nat (uint (m_nHeight s) * 16 + 1)) (m_Framebuffer s'))]) (m_pI2CMaster s)
       else m_pI2CMaster s)
    \<and> m_Framebuffer s' ! 0 = m_Framebuffer s ! 0
    \<and> length (m_Framebuffer s') = length (m_Framebuffer s)
    \<and> m_nHeight s' = m_nHeight s \<and> m_nAddress s' = m_nAddress s"
proof -
  from Print_spec_Inr [OF assms] obtain t where
    t: "same_but_pixels s t" and s': "if immediate then WriteFramebuffer t = Inr s' else s' = t"
    by blast
  note f = same_but_pixels_fields [OF t]
  show ?thesis
  proof (cases immediate)
    case False
    then show ?thesis
      using s' f by simp
  next
    case True
    with s' have "WriteFramebuffer t = Inr s'"
      by simp
    from WriteFramebuffer_Inr [OF this] obtain w where
      w: "m_pI2CMaster t = Some w"
      and eq: "s' = t\<lparr>m_pI2CMaster := Some (w @ [(m_nAddress t,
               take (nat (uint (m_nHeight t) * 16 + 1)) (m_Framebuffer t))])\<rparr>"
      by blast
    have "m_pI2CMaster s = Some w"
      using w f(1) by simp
    then show ?thesis
      using True f by (simp add: eq)
  qed
qed

text \<open>
  C7. For every text and starting cell, \<open>Print\<close> does what the specification says: it
  blits the characters left to right from cell \<open>(x, y)\<close> until the string ends or column
  20 is reached, pads the remaining cells up to column 20 with spaces when \<open>clearLine\<close>
  is set, and flushes exactly when \<open>immediate\<close> is set: the bus then receives one write of
  the framebuffer, and otherwise none. The instance that follows is
  \<open>Print("HELLO", 0, 0, true, false)\<close>: five glyphs, spaces in columns 5 to 19, no bus
  write.
\<close>

theorem Print_blits_pads_flushes:
  "Print d pText x y clearLine immediate s = Print_spec d pText x y clearLine immediate s
   \<and> (\<forall>s'. Print d pText x y clearLine immediate s = Inr s' \<longrightarrow>
         m_pI2CMaster s' =
           (if immediate
            then map_option (\<lambda>written. written @ [(m_nAddress s,
                   take (nat (uint (m_nHeight s) * 16 + 1)) (m_Framebuffer s'))]) (m_pI2CMaster s)
            else m_pI2CMaster s))"
  using Print_bus [of d pText x y clearLine immediate s]
  by (simp only: Print_eq_Print_spec) blast

lemma bind_Inr_right: "bind m Inr = m" "bind m (\<lambda>x. Inr x) = m"
  by (cases m; simp)+

lemma example_glyphs:
  "glyph_index CHR ''H'' = 40" "glyph_index CHR ''E'' = 37" "glyph_index CHR ''L'' = 44"
  "glyph_index CHR ''O'' = 47" "glyph_index CHR '' '' = 0"
  "length (Font6x8 example_decls) = 97" "\<not> default_bDoubleWidth example_decls"
  "\<not> default_bInverted example_decls" "default_bDrawPeaks example_decls"
  "\<not> default_bImmediate example_decls"
  by (simp_all add: glyph_index_def example_decls_def)

lemma example_Print:
  "\<exists>s'. Print example_decls ''HELLO'' 0 0 True False (example_lcd 64) = Inr s'"
  unfolding Print_eq_Print_spec
  by (rule Print_spec_total) (simp_all add: example_glyphs example_geometry)

theorem Print_blits_pads_flushes_witness:
  "Print example_decls ''HELLO'' 0 0 True False (example_lcd 64) =
     bind (for_each [(CHR ''H'', 0), (CHR ''E'', 1), (CHR ''L'', 2), (CHR ''L'', 3), (CHR ''O'', 4)]
             (\<lambda>(c, column). DrawChar example_decls c (of_nat column) 0 False False)
             (example_lcd 64))
       (for_each [5, 6, 7, 8, 9, 10, 11, 12, 13, 14, 15, 16, 17, 18, 19]
          (\<lambda>column. DrawChar example_decls CHR '' '' (of_nat column) 0 False False))
   \<and> map_sum id m_pI2CMaster (Print example_decls ''HELLO'' 0 0 True False (example_lcd 64))
       = Inr (Some [])"
proof -
  note inst = Print_blits_pads_flushes
    [of example_decls "''HELLO''" 0 0 True False "example_lcd 64"]
  have cells: "zip ''HELLO'' [unat (0 :: u8)..<20]
      = [(CHR ''H'', 0), (CHR ''E'', 1), (CHR ''L'', 2), (CHR ''L'', 3), (CHR ''O'', 4)]"
    by (simp add: upt_rec)
  have pad: "[unat (0 :: u8) + length
        [(CHR ''H'', 0 :: nat), (CHR ''E'', 1), (CHR ''L'', 2), (CHR ''L'', 3), (CHR ''O'', 4)]..<20]
      = [5, 6, 7, 8, 9, 10, 11, 12, 13, 14, 15, 16, 17, 18, 19]"
    by (simp add: upt_rec)
  have dflt: "default_bInverted example_decls = False" "default_bDoubleWidth example_decls = False"
    by (simp_all add: example_decls_def)
  have spec: "Print_spec example_decls ''HELLO'' 0 0 True False (example_lcd 64) =
     bind (for_each [(CHR ''H'', 0), (CHR ''E'', 1), (CHR ''L'', 2), (CHR ''L'', 3), (CHR ''O'', 4)]
             (\<lambda>(c, column). DrawChar example_decls c (of_nat column) 0 False False)
             (example_lcd 64))
       (for_each [5, 6, 7, 8, 9, 10, 11, 12, 13, 14, 15, 16, 17, 18, 19]
          (\<lambda>column. DrawChar example_decls CHR '' '' (of_nat column) 0 False False))"
    by (simp only: Print_spec_def Let_def cells pad dflt if_True if_False bind_Inr_right)
  obtain s' where run: "Print example_decls ''HELLO'' 0 0 True False (example_lcd 64) = Inr s'"
    using example_Print by blast
  have bus: "m_pI2CMaster s' = Some []"
    using inst run by (simp add: example_lcd_def)
  from inst have "Print example_decls ''HELLO'' 0 0 True False (example_lcd 64)
      = Print_spec example_decls ''HELLO'' 0 0 True False (example_lcd 64)"
    by (rule conjunct1)
  then have blits: "Print example_decls ''HELLO'' 0 0 True False (example_lcd 64) =
     bind (for_each [(CHR ''H'', 0), (CHR ''E'', 1), (CHR ''L'', 2), (CHR ''L'', 3), (CHR ''O'', 4)]
             (\<lambda>(c, column). DrawChar example_decls c (of_nat column) 0 False False)
             (example_lcd 64))
       (for_each [5, 6, 7, 8, 9, 10, 11, 12, 13, 14, 15, 16, 17, 18, 19]
          (\<lambda>column. DrawChar example_decls CHR '' '' (of_nat column) 0 False False))"
    by (simp only: spec)
  have silent: "map_sum id m_pI2CMaster
      (Print example_decls ''HELLO'' 0 0 True False (example_lcd 64)) = Inr (Some [])"
    by (simp only: run bus map_sum.simps)
  show ?thesis
    using blits silent by (rule conjI)
qed


lemma SetPixel_byte0:
  assumes "SetPixel nX nY s = Inr s'"
  shows "m_Framebuffer s' ! 0 = m_Framebuffer s ! 0"
proof -
  from assms obtain v where
    "store (m_Framebuffer s) (pixel_index nX nY) v = Inr (m_Framebuffer s')"
    by (auto simp: SetPixel_def Let_def bind_eq_Inr pixel_index_def)
  moreover have "int 0 \<noteq> pixel_index nX nY"
    using pixel_index_bounds(1) [of nX nY] by arith
  ultimately show ?thesis
    by (rule store_frame)
qed

lemma ClearPixel_byte0:
  assumes "ClearPixel nX nY s = Inr s'"
  shows "m_Framebuffer s' ! 0 = m_Framebuffer s ! 0"
proof -
  from assms obtain v where
    "store (m_Framebuffer s) (pixel_index nX nY) v = Inr (m_Framebuffer s')"
    by (auto simp: ClearPixel_def Let_def bind_eq_Inr pixel_index_def)
  moreover have "int 0 \<noteq> pixel_index nX nY"
    using pixel_index_bounds(1) [of nX nY] by arith
  ultimately show ?thesis
    by (rule store_frame)
qed

lemma WriteFramebuffer_pixels:
  assumes "WriteFramebuffer t = Inr t'"
  shows "m_Framebuffer t' = m_Framebuffer t"
  using WriteFramebuffer_Inr [OF assms] by auto

lemma memset_byte0:
  assumes "memset a 1 v count = Inr a'"
  shows "a' ! 0 = a ! 0"
  using assms by (cases a) (auto simp: memset_def split: if_splits)

lemma Clear_byte0:
  assumes "Clear bImmediate s = Inr s'"
  shows "m_Framebuffer s' ! 0 = m_Framebuffer s ! 0"
proof -
  from assms obtain fb where
    fb: "memset (m_Framebuffer s) 1 0 (128 * uint (m_nHeight s) div 8) = Inr fb"
    and s': "(if bImmediate then WriteFramebuffer (s\<lparr>m_Framebuffer := fb\<rparr>)
              else Inr (s\<lparr>m_Framebuffer := fb\<rparr>)) = Inr s'"
    by (auto simp: Clear_def Let_def bind_eq_Inr)
  have "m_Framebuffer s' = fb"
    using s' by (cases bImmediate) (auto dest: WriteFramebuffer_pixels)
  then show ?thesis
    using memset_byte0 [OF fb] by simp
qed

lemma Update_byte0:
  assumes "Update d junk pText levels peaks s = Inr s'"
  shows "m_Framebuffer s' ! 0 = m_Framebuffer s ! 0"
proof -
  let ?s0 = "s\<lparr>m_TextBuffer := pText, m_PartLevels := levels, m_PeakLevels := peaks\<rparr>"
  from assms obtain s1 s2 where
    bars: "DrawPartLevels d junk 0 (default_bDrawPeaks d) ?s0 = Inr s1"
    and status: "Print d (m_TextBuffer s1) 0 (if m_nHeight s1 = 32 then 1 else 3) True
        (default_bImmediate d) s1 = Inr s2"
    and flush: "WriteFramebuffer s2 = Inr s'"
    by (auto simp: Update_def Let_def bind_eq_Inr)
  have "m_Framebuffer s1 ! 0 = m_Framebuffer ?s0 ! 0"
    using DrawPartLevels_same_but_pixels [OF bars] by (rule same_but_pixels_fields)
  moreover have "m_Framebuffer s2 ! 0 = m_Framebuffer s1 ! 0"
    using Print_bus [OF status [unfolded Print_eq_Print_spec]] by simp
  ultimately show ?thesis
    using WriteFramebuffer_pixels [OF flush] by simp
qed

lemma Update_total:
  assumes h: "m_nHeight s = 32 \<or> m_nHeight s = 64"
    and levels: "\<And>i. i < 9 \<Longrightarrow> scale d (levels i) (barHeight s) \<le> barHeight s
        \<and> scale d (peaks i) (barHeight s) \<le> barHeight s"
    and font: "\<forall>c \<in> set pText \<union> {CHR '' ''}. glyph_index c < length (Font6x8 d)"
    and fb: "uint (if m_nHeight s = 32 then 1 else 3 :: u8) * 256
        + 20 * (if default_bDoubleWidth d then 12 else 6) + 132 < int (length (m_Framebuffer s))"
    and bus: "m_pI2CMaster s \<noteq> None"
    and flush: "uint (m_nHeight s) * 16 + 1 \<le> int (length (m_Framebuffer s))"
  shows "\<exists>s'. Update d junk pText levels peaks s = Inr s'"
proof -
  let ?s0 = "s\<lparr>m_TextBuffer := pText, m_PartLevels := levels, m_PeakLevels := peaks\<rparr>"
  have geometry: "totalPages ?s0 = totalPages s" "barHeight ?s0 = barHeight s"
    by (simp_all add: totalPages_def barHeight_def)
  have pages: "uint (totalPages s) = (if m_nHeight s = 32 then 2 else 6)"
    using h by (auto simp: totalPages_def)
  have "\<exists>s1. DrawPartLevels d junk 0 (default_bDrawPeaks d) ?s0 = Inr s1"
    using h levels fb pages
    by (intro DrawPartLevels_total) (auto simp: geometry split: if_splits)
  then obtain s1 where bars: "DrawPartLevels d junk 0 (default_bDrawPeaks d) ?s0 = Inr s1"
    by blast
  note f1 = same_but_pixels_fields [OF DrawPartLevels_same_but_pixels [OF bars]]
  have "\<exists>s2. Print_spec d (m_TextBuffer s1) 0 (if m_nHeight s1 = 32 then 1 else 3) True
        (default_bImmediate d) s1 = Inr s2"
    using font fb bus flush f1 by (intro Print_spec_total) simp_all
  then obtain s2 where status: "Print_spec d (m_TextBuffer s1) 0
      (if m_nHeight s1 = 32 then 1 else 3) True (default_bImmediate d) s1 = Inr s2"
    by blast
  note f2 = Print_bus [OF status]
  have "m_pI2CMaster s2 \<noteq> None"
    using f2 f1 bus by (auto split: if_splits)
  then have "\<exists>s'. WriteFramebuffer s2 = Inr s'"
    using f2 f1 flush by (auto simp: WriteFramebuffer_def I2C_Write_def Let_def)
  then show ?thesis
    using bars status by (auto simp: Update_def Let_def Print_eq_Print_spec)
qed

text \<open>
  C10. The constructor leaves \<open>0x40\<close> in byte 0 of the framebuffer, and every drawing
  operation that returns leaves byte 0 as it found it, whatever it held: none of them
  writes at offset 0.
\<close>

theorem control_byte_preserved:
  "(CSSD1306 d pI2CMaster nAddress nHeight Rotation levels peaks pText = Inr s0
      \<longrightarrow> m_Framebuffer s0 ! 0 = 0x40)
   \<and> (SetPixel nX nY s = Inr s1 \<longrightarrow> m_Framebuffer s1 ! 0 = m_Framebuffer s ! 0)
   \<and> (ClearPixel nX nY s = Inr s2 \<longrightarrow> m_Framebuffer s2 ! 0 = m_Framebuffer s ! 0)
   \<and> (Clear bImmediate s = Inr s3 \<longrightarrow> m_Framebuffer s3 ! 0 = m_Framebuffer s ! 0)
   \<and> (DrawChar d chChar nCursorX nCursorY bInverted bDoubleWidth s = Inr s4
        \<longrightarrow> m_Framebuffer s4 ! 0 = m_Framebuffer s ! 0)
   \<and> (DrawPartLevels d junk nFirstRow bDrawPeaks s = Inr s5
        \<longrightarrow> m_Framebuffer s5 ! 0 = m_Framebuffer s ! 0)
   \<and> (Print d pText nCursorX nCursorY bClearLine bImmediate s = Inr s6
        \<longrightarrow> m_Framebuffer s6 ! 0 = m_Framebuffer s ! 0)
   \<and> (Update d junk pText levels peaks s = Inr s7
        \<longrightarrow> m_Framebuffer s7 ! 0 = m_Framebuffer s ! 0)"
proof -
  have "m_Framebuffer s0 ! 0 = 0x40"
    if "CSSD1306 d pI2CMaster nAddress nHeight Rotation levels peaks pText = Inr s0"
    using that by (auto simp: CSSD1306_def split: if_splits)
  moreover have "m_Framebuffer s4 ! 0 = m_Framebuffer s ! 0"
    if "DrawChar d chChar nCursorX nCursorY bInverted bDoubleWidth s = Inr s4"
    using DrawChar_same_but_pixels [OF that] by (rule same_but_pixels_fields)
  moreover have "m_Framebuffer s5 ! 0 = m_Framebuffer s ! 0"
    if "DrawPartLevels d junk nFirstRow bDrawPeaks s = Inr s5"
    using DrawPartLevels_same_but_pixels [OF that] by (rule same_but_pixels_fields)
  moreover have "m_Framebuffer s6 ! 0 = m_Framebuffer s ! 0"
    if "Print d pText nCursorX nCursorY bClearLine bImmediate s = Inr s6"
    using Print_bus [OF that [unfolded Print_eq_Print_spec]] by simp
  ultimately show ?thesis
    using SetPixel_byte0 [of nX nY s s1] ClearPixel_byte0 [of nX nY s s2]
      Clear_byte0 [of bImmediate s s3] Update_byte0 [of d junk pText levels peaks s s7]
    by blast
qed


lemma example_built:
  "CSSD1306 example_decls (Some []) 0x3C 64 Normal (\<lambda>i. 1 / 2) (\<lambda>i. 3 / 4) ''HELLO''
     = Inr (example_lcd 64)"
  by (simp add: CSSD1306_def example_decls_def example_lcd_def)

lemma example_Update:
  "\<exists>s'. Update example_decls junk ''HELLO'' (\<lambda>i. 1 / 2) (\<lambda>i. 3 / 4) (example_lcd 64) = Inr s'"
proof (rule Update_total)
  have "scale example_decls (1 / 2) 48 = 24" "scale example_decls (3 / 4) 48 = 36"
    by (simp_all add: example_decls_def)
  then show "scale example_decls (1 / 2) (barHeight (example_lcd 64)) \<le> barHeight (example_lcd 64)
      \<and> scale example_decls (3 / 4) (barHeight (example_lcd 64)) \<le> barHeight (example_lcd 64)"
    for i :: nat
    by (simp add: example_geometry)
qed (simp_all add: example_geometry example_glyphs, simp add: example_lcd_def)

theorem control_byte_preserved_witness:
  "CSSD1306 example_decls (Some []) 0x3C 64 Normal (\<lambda>i. 1 / 2) (\<lambda>i. 3 / 4) ''HELLO''
     = Inr (example_lcd 64)
   \<and> m_Framebuffer (example_lcd 64) ! 0 = 0x40
   \<and> map_sum id (\<lambda>s. m_Framebuffer s ! 0) (SetPixel 255 9 (example_lcd 64)) = Inr 0x40
   \<and> map_sum id (\<lambda>s. m_Framebuffer s ! 0) (ClearPixel 255 9 (example_lcd 64)) = Inr 0x40
   \<and> map_sum id (\<lambda>s. m_Framebuffer s ! 0) (Clear False (example_lcd 64)) = Inr 0x40
   \<and> map_sum id (\<lambda>s. m_Framebuffer s ! 0)
        (DrawChar example_decls CHR ''H'' 0 0 False False (example_lcd 64)) = Inr 0x40
   \<and> map_sum id (\<lambda>s. m_Framebuffer s ! 0)
        (DrawPartLevels example_decls (\<lambda>i j. 0) 0 True (example_lcd 64)) = Inr 0x40
   \<and> map_sum id (\<lambda>s. m_Framebuffer s ! 0)
        (Print example_decls ''HELLO'' 0 0 False False (example_lcd 64)) = Inr 0x40
   \<and> map_sum id (\<lambda>s. m_Framebuffer s ! 0)
        (Update example_decls (\<lambda>i j. 0) ''HELLO'' (\<lambda>i. 1 / 2) (\<lambda>i. 3 / 4) (example_lcd 64))
       = Inr 0x40"
proof -
  let ?s = "example_lcd 64"
  have len: "1024 < length (m_Framebuffer ?s)"
    by (simp add: example_geometry)
  obtain s1 where r1: "SetPixel 255 9 ?s = Inr s1"
    using SetPixel_result [OF len] by blast
  obtain s2 where r2: "ClearPixel 255 9 ?s = Inr s2"
    using ClearPixel_result [OF len] by blast
  obtain s3 where r3: "Clear False ?s = Inr s3"
    by (simp add: Clear_def memset_def example_geometry)
  have "\<exists>s4. DrawChar example_decls CHR ''H'' 0 0 False False ?s = Inr s4"
    by (rule DrawChar_total) (simp_all add: example_glyphs example_geometry glyph_index_def [symmetric])
  then obtain s4 where r4: "DrawChar example_decls CHR ''H'' 0 0 False False ?s = Inr s4"
    by blast
  obtain s5 where r5: "DrawPartLevels example_decls (\<lambda>i j. 0) 0 True ?s = Inr s5"
    using example_DrawPartLevels by blast
  have "\<exists>s6. Print example_decls ''HELLO'' 0 0 False False ?s = Inr s6"
    unfolding Print_eq_Print_spec
    by (rule Print_spec_total) (simp_all add: example_glyphs example_geometry)
  then obtain s6 where r6: "Print example_decls ''HELLO'' 0 0 False False ?s = Inr s6"
    by blast
  obtain s7 where r7: "Update example_decls (\<lambda>i j. 0) ''HELLO'' (\<lambda>i. 1 / 2) (\<lambda>i. 3 / 4) ?s = Inr s7"
    using example_Update by blast
  have byte: "m_Framebuffer ?s ! 0 = 0x40"
    by (simp add: example_lcd_def)
  note inst = control_byte_preserved
    [where d = example_decls and pI2CMaster = "Some []" and nAddress = "0x3C" and nHeight = 64
      and Rotation = Normal and levels = "\<lambda>i. 1 / 2" and peaks = "\<lambda>i. 3 / 4"
      and pText = "''HELLO''" and ?s0.0 = ?s and s = ?s and nX = 255 and nY = 9
      and ?s1.0 = s1 and ?s2.0 = s2 and bImmediate = False and ?s3.0 = s3
      and chChar = "CHR ''H''" and nCursorX = 0 and nCursorY = 0 and bInverted = False
      and bDoubleWidth = False and ?s4.0 = s4 and junk = "\<lambda>i j. 0" and nFirstRow = 0
      and bDrawPeaks = True and ?s5.0 = s5 and bClearLine = False and ?s6.0 = s6 and ?s7.0 = s7]
  have bytes: "m_Framebuffer s1 ! 0 = 0x40" "m_Framebuffer s2 ! 0 = 0x40"
    "m_Framebuffer s3 ! 0 = 0x40" "m_Framebuffer s4 ! 0 = 0x40" "m_Framebuffer s5 ! 0 = 0x40"
    "m_Framebuffer s6 ! 0 = 0x40" "m_Framebuffer s7 ! 0 = 0x40"
    using inst r1 r2 r3 r4 r5 r6 r7 byte by simp_all
  show ?thesis
    by (simp only: example_built byte r1 r2 r3 r4 r5 r6 r7 bytes map_sum.simps simp_thms)
qed

end
